theory Spec2Isabelle
  imports Main "HOL-Library.Multiset"
begin

section \<open>Klondike Solitaire: the rules-and-state engine of solitaire.js\<close>

text \<open>
  The engine keeps its state in module-level variables (\<open>stock\<close>, \<open>waste\<close>,
  \<open>foundations\<close>, \<open>tableau\<close>, \<open>selectedCards\<close>) that hold references to mutable
  card objects. The embedding makes that explicit: a card object lives in a store at an
  address, the piles and the selection are lists of addresses, and the only field that is
  ever assigned after creation, \<open>faceUp\<close>, is updated in the store. A function that can
  throw a \<open>TypeError\<close> (a property read on \<open>undefined\<close>) returns \<open>None\<close> there;
  nothing catches it, and the state it leaves behind is not modelled.
  The DOM side (\<open>render\<close>, \<open>createCardElement\<close>, the listeners) reads the state and
  never writes it, and is left out, as is \<open>moveHistory\<close>, which is reset by
  \<open>initGame\<close> and never read.
\<close>

subsection \<open>Cards and the deck\<close>

datatype suit = hearts | diamonds | clubs | spades

datatype cvalue = VA | V2 | V3 | V4 | V5 | V6 | V7 | V8 | V9 | V10 | VJ | VQ | VK

datatype color = red | black

text \<open>The keys of \<open>foundations\<close>: the short suit codes \<open>h\<close>, \<open>d\<close>, \<open>c\<close>, \<open>s\<close>.\<close>

datatype fkey = Kh | Kd | Kc | Ks

definition SUITS :: "suit list" where
  "SUITS = [hearts, diamonds, clubs, spades]"

definition VALUES :: "cvalue list" where
  "VALUES = [VA, V2, V3, V4, V5, V6, V7, V8, V9, V10, VJ, VQ, VK]"

fun SUIT_SHORT :: "suit \<Rightarrow> fkey" where
  "SUIT_SHORT hearts = Kh"
| "SUIT_SHORT diamonds = Kd"
| "SUIT_SHORT clubs = Kc"
| "SUIT_SHORT spades = Ks"

text \<open>The JavaScript strings behind the two enumerations, as the card ids spell them.\<close>

fun suit_name :: "suit \<Rightarrow> string" where
  "suit_name hearts = ''hearts''"
| "suit_name diamonds = ''diamonds''"
| "suit_name clubs = ''clubs''"
| "suit_name spades = ''spades''"

fun value_name :: "cvalue \<Rightarrow> string" where
  "value_name VA = ''A''"
| "value_name V2 = ''2''"
| "value_name V3 = ''3''"
| "value_name V4 = ''4''"
| "value_name V5 = ''5''"
| "value_name V6 = ''6''"
| "value_name V7 = ''7''"
| "value_name V8 = ''8''"
| "value_name V9 = ''9''"
| "value_name V10 = ''10''"
| "value_name VJ = ''J''"
| "value_name VQ = ''Q''"
| "value_name VK = ''K''"

text \<open>
  A card object. The fields \<open>val\<close> and \<open>cid\<close> are the source's \<open>value\<close> and \<open>id\<close>.
\<close>

record card =
  suit :: suit
  val :: cvalue
  color :: color
  faceUp :: bool
  cid :: string

definition createCard :: "suit \<Rightarrow> cvalue \<Rightarrow> card" where
  "createCard su v =
     \<lparr> suit = su, val = v,
       color = (if su = hearts \<or> su = diamonds then red else black),
       faceUp = False,
       cid = value_name v @ ''-'' @ suit_name su \<rparr>"

definition createDeck :: "card list" where
  "createDeck = concat (map (\<lambda>su. map (\<lambda>v. createCard su v) VALUES) SUITS)"

subsection \<open>Array operations of JavaScript\<close>

text \<open>\<open>findIndex\<close> gives the first index whose element passes the test, or \<open>-1\<close>.\<close>

primrec findIndex :: "('a \<Rightarrow> bool) \<Rightarrow> 'a list \<Rightarrow> int" where
  "findIndex P [] = - 1"
| "findIndex P (x # xs) =
     (if P x then 0
      else (let r = findIndex P xs in if r < 0 then - 1 else r + 1))"

definition indexOf :: "'a list \<Rightarrow> 'a \<Rightarrow> int" where
  "indexOf xs x = findIndex (\<lambda>y. y = x) xs"

text \<open>
  \<open>xs.splice(start, count)\<close>, as the array it leaves behind: a negative \<open>start\<close> counts
  from the end, and the count is cut down to what is there.
\<close>

definition js_splice :: "int \<Rightarrow> nat \<Rightarrow> 'a list \<Rightarrow> 'a list" where
  "js_splice start cnt xs =
     (let n = int (length xs);
          st = (if start < 0 then max (n + start) 0 else min start n);
          dc = min (int cnt) (n - st)
      in take (nat st) xs @ drop (nat (st + dc)) xs)"

definition getValueIndex :: "cvalue \<Rightarrow> int" where
  "getValueIndex v = indexOf VALUES v"

definition getSuitShort :: "suit \<Rightarrow> fkey" where
  "getSuitShort su = SUIT_SHORT su"

subsection \<open>Game state\<close>

type_synonym addr = nat

text \<open>
  A \<open>{type, index}\<close> pair naming a pile: the move sources and destinations. For the
  waste the page passes the index \<open>0\<close>, which no function reads.
\<close>

datatype pile_ref = Waste | Tableau nat | Foundation fkey

text \<open>
  \<open>winAlerts\<close> counts the win alerts that \<open>checkWin\<close> has scheduled since the game was
  set up; it is the only trace the win signal leaves.
\<close>

record state =
  heap :: "addr \<Rightarrow> card"
  stock :: "addr list"
  waste :: "addr list"
  foundations :: "fkey \<Rightarrow> addr list"
  tableau :: "addr list list"
  selectedCards :: "(addr list \<times> pile_ref) option"
  winAlerts :: nat

definition setFaceUp :: "addr \<Rightarrow> bool \<Rightarrow> (addr \<Rightarrow> card) \<Rightarrow> (addr \<Rightarrow> card)" where
  "setFaceUp a b hp = hp(a := (hp a)\<lparr>faceUp := b\<rparr>)"

subsection \<open>Move validation\<close>

definition canMoveToFoundation :: "state \<Rightarrow> addr \<Rightarrow> fkey \<Rightarrow> bool" where
  "canMoveToFoundation st crd foundationSuit =
     (let foundation = foundations st foundationSuit;
          suitShort = getSuitShort (suit (heap st crd))
      in if suitShort \<noteq> foundationSuit then False
         else if length foundation = 0 then val (heap st crd) = VA
         else (let topCard = last foundation
               in getValueIndex (val (heap st crd)) =
                  getValueIndex (val (heap st topCard)) + 1))"

text \<open>
  \<open>tableau[targetCol]\<close> is \<open>undefined\<close> beyond the seven columns, and \<open>cards[0]\<close> is
  \<open>undefined\<close> for an empty run: reading a property of either throws.
\<close>

definition canMoveToTableau :: "state \<Rightarrow> addr list \<Rightarrow> nat \<Rightarrow> bool option" where
  "canMoveToTableau st cards targetCol =
     (if targetCol < length (tableau st) then
        (let targetPile = tableau st ! targetCol
         in if length targetPile = 0 then
              (case cards of
                 [] \<Rightarrow> None
               | movingCard # _ \<Rightarrow> Some (val (heap st movingCard) = VK))
            else
              (let targetCard = last targetPile
               in if \<not> faceUp (heap st targetCard) then Some False
                  else
                    (case cards of
                       [] \<Rightarrow> None
                     | movingCard # _ \<Rightarrow>
                         if color (heap st movingCard) = color (heap st targetCard)
                         then Some False
                         else Some (getValueIndex (val (heap st movingCard)) =
                                    getValueIndex (val (heap st targetCard)) - 1))))
      else None)"

subsection \<open>Move execution\<close>

definition deselect :: "state \<Rightarrow> state" where
  "deselect st = st\<lparr>selectedCards := None\<rparr>"

definition selectCards :: "addr list \<Rightarrow> pile_ref \<Rightarrow> state \<Rightarrow> state" where
  "selectCards cards source st = st\<lparr>selectedCards := Some (cards, source)\<rparr>"

definition checkWin :: "state \<Rightarrow> state" where
  "checkWin st =
     (let totalFoundationCards =
            length (foundations st Kh) + length (foundations st Kd) +
            length (foundations st Kc) + length (foundations st Ks)
      in if totalFoundationCards = 52 then st\<lparr>winAlerts := winAlerts st + 1\<rparr> else st)"

definition drawFromStock :: "state \<Rightarrow> state" where
  "drawFromStock st0 =
     (let st = deselect st0
      in if length (stock st) = 0 then
           (if length (waste st) > 0 then
              st\<lparr>heap := fold (\<lambda>crd hp. setFaceUp crd False hp) (rev (waste st)) (heap st),
                 stock := rev (waste st),
                 waste := []\<rparr>
            else st)
         else
           (let crd = last (stock st)
            in st\<lparr>heap := setFaceUp crd True (heap st),
                  stock := butlast (stock st),
                  waste := waste st @ [crd]\<rparr>))"

text \<open>The first half of \<open>moveCards\<close>: remove the cards from the source pile.\<close>

definition removeFromSource :: "addr list \<Rightarrow> pile_ref \<Rightarrow> state \<Rightarrow> state option" where
  "removeFromSource cards source st =
     (case source of
        Waste \<Rightarrow> Some (st\<lparr>waste := butlast (waste st)\<rparr>)
      | Tableau i \<Rightarrow>
          (if i < length (tableau st) then
             (let pile = tableau st ! i
              in case cards of
                   [] \<Rightarrow> (if pile = [] then Some st else None)
                 | c0 # _ \<Rightarrow>
                     (let startIdx = findIndex (\<lambda>c. cid (heap st c) = cid (heap st c0)) pile;
                          pile' = js_splice startIdx (length cards) pile;
                          st' = st\<lparr>tableau := (tableau st)[i := pile']\<rparr>
                      in if length pile' > 0 \<and> \<not> faceUp (heap st' (last pile'))
                         then Some (st'\<lparr>heap := setFaceUp (last pile') True (heap st')\<rparr>)
                         else Some st'))
           else None)
      | Foundation k \<Rightarrow>
          Some (st\<lparr>foundations := (foundations st)(k := butlast (foundations st k))\<rparr>))"

text \<open>The second half of \<open>moveCards\<close>: push the cards on the destination pile.\<close>

definition addToDestination :: "addr list \<Rightarrow> pile_ref \<Rightarrow> state \<Rightarrow> state option" where
  "addToDestination cards destination st =
     (case destination of
        Tableau j \<Rightarrow>
          (if j < length (tableau st)
           then Some (st\<lparr>tableau := (tableau st)[j := tableau st ! j @ cards]\<rparr>)
           else None)
      | Foundation k \<Rightarrow>
          Some (st\<lparr>foundations := (foundations st)(k := foundations st k @ cards)\<rparr>)
      | Waste \<Rightarrow> Some st)"

definition moveCards :: "addr list \<Rightarrow> pile_ref \<Rightarrow> pile_ref \<Rightarrow> state \<Rightarrow> state option" where
  "moveCards cards source destination st =
     (case removeFromSource cards source st of
        None \<Rightarrow> None
      | Some st1 \<Rightarrow>
          (case addToDestination cards destination st1 of
             None \<Rightarrow> None
           | Some st2 \<Rightarrow> Some (checkWin (deselect st2))))"

text \<open>What \<open>attemptMove\<close> returns: \<open>undefined\<close> (a bare \<open>return\<close>), \<open>true\<close> or \<open>false\<close>.\<close>

datatype ret = RetUndefined | RetTrue | RetFalse

definition attemptMove :: "pile_ref \<Rightarrow> state \<Rightarrow> (ret \<times> state) option" where
  "attemptMove destination st =
     (case selectedCards st of
        None \<Rightarrow> Some (RetUndefined, st)
      | Some (cards, source) \<Rightarrow>
          (case destination of
             Foundation k \<Rightarrow>
               (if length cards = 1 \<and> canMoveToFoundation st (hd cards) k
                then (case moveCards cards source (Foundation k) st of
                        None \<Rightarrow> None
                      | Some st' \<Rightarrow> Some (RetTrue, st'))
                else Some (RetFalse, deselect st))
           | Tableau j \<Rightarrow>
               (case canMoveToTableau st cards j of
                  None \<Rightarrow> None
                | Some True \<Rightarrow>
                    (case moveCards cards source (Tableau j) st of
                       None \<Rightarrow> None
                     | Some st' \<Rightarrow> Some (RetTrue, st'))
                | Some False \<Rightarrow> Some (RetFalse, deselect st))
           | Waste \<Rightarrow> Some (RetFalse, deselect st)))"

definition autoMoveToFoundation :: "addr \<Rightarrow> pile_ref \<Rightarrow> state \<Rightarrow> (bool \<times> state) option" where
  "autoMoveToFoundation crd source st =
     (let suitShort = getSuitShort (suit (heap st crd))
      in if canMoveToFoundation st crd suitShort
         then (case moveCards [crd] source (Foundation suitShort) st of
                 None \<Rightarrow> None
               | Some st' \<Rightarrow> Some (True, st'))
         else Some (False, st))"

subsection \<open>Selection logic\<close>

text \<open>
  The card a click resolves to, with its pile and its index in the pile; \<open>None\<close> for the
  card is the source's \<open>undefined\<close>. A tableau index beyond the columns throws.
\<close>

definition resolveClick ::
  "string \<Rightarrow> pile_ref \<Rightarrow> state \<Rightarrow> (addr list \<times> addr option \<times> int) option" where
  "resolveClick cardId source st =
     (case source of
        Waste \<Rightarrow>
          Some (waste st,
                (if waste st = [] then None else Some (last (waste st))),
                int (length (waste st)) - 1)
      | Tableau i \<Rightarrow>
          (if i < length (tableau st) then
             (let pile = tableau st ! i;
                  cardIndex = findIndex (\<lambda>c. cid (heap st c) = cardId) pile
              in Some (pile,
                       (if cardIndex < 0 then None else Some (pile ! nat cardIndex)),
                       cardIndex))
           else None)
      | Foundation k \<Rightarrow>
          (let pile = foundations st k
           in Some (pile,
                    (if pile = [] then None else Some (last pile)),
                    int (length pile) - 1)))"

text \<open>The tail of \<open>handleCardClick\<close>, after the double-click fast path.\<close>

definition selectOrMove ::
  "addr list \<Rightarrow> addr \<Rightarrow> int \<Rightarrow> pile_ref \<Rightarrow> state \<Rightarrow> state option" where
  "selectOrMove pile crd cardIndex source st =
     (case selectedCards st of
        None \<Rightarrow>
          (let cardsToSelect =
                 (case source of Tableau _ \<Rightarrow> drop (nat cardIndex) pile | _ \<Rightarrow> [crd])
           in Some (selectCards cardsToSelect source st))
      | Some _ \<Rightarrow>
          (case source of
             Tableau i \<Rightarrow> map_option snd (attemptMove (Tableau i) st)
           | Foundation k \<Rightarrow> map_option snd (attemptMove (Foundation k) st)
           | Waste \<Rightarrow> Some (deselect st)))"

text \<open>
  \<open>handleCardClick(cardId, sourceType, sourceIndex, event)\<close>; the event is absent
  (\<open>None\<close>) or carries its click count \<open>detail\<close>.
\<close>

definition handleCardClick ::
  "string \<Rightarrow> pile_ref \<Rightarrow> nat option \<Rightarrow> state \<Rightarrow> state option" where
  "handleCardClick cardId source event st =
     (case resolveClick cardId source st of
        None \<Rightarrow> None
      | Some (pile, None, cardIndex) \<Rightarrow> Some st
      | Some (pile, Some crd, cardIndex) \<Rightarrow>
          (if \<not> faceUp (heap st crd) then Some st
           else if event = Some 2 \<and> (case source of Foundation _ \<Rightarrow> False | _ \<Rightarrow> True) \<and>
                   length (case source of Tableau _ \<Rightarrow> drop (nat cardIndex) pile
                                        | _ \<Rightarrow> [crd]) = 1
           then (case autoMoveToFoundation crd source st of
                   None \<Rightarrow> None
                 | Some (True, st') \<Rightarrow> Some st'
                 | Some (False, st') \<Rightarrow> selectOrMove pile crd cardIndex source st')
           else selectOrMove pile crd cardIndex source st))"

definition handleEmptySlotClick :: "pile_ref \<Rightarrow> state \<Rightarrow> state option" where
  "handleEmptySlotClick slot st =
     (case selectedCards st of
        None \<Rightarrow> Some st
      | Some _ \<Rightarrow> map_option snd (attemptMove slot st))"

subsection \<open>Game initialization\<close>

text \<open>
  \<open>shuffleDeck\<close> walks \<open>i\<close> from the last index down to \<open>1\<close> and swaps positions
  \<open>i\<close> and \<open>j = Math.floor(Math.random() * (i + 1))\<close>. The random source is the
  parameter \<open>rnd\<close>: \<open>rnd i\<close> is the \<open>j\<close> drawn at index \<open>i\<close>, a number from \<open>0\<close>
  to \<open>i\<close>.
\<close>

fun shuffleLoop :: "(nat \<Rightarrow> nat) \<Rightarrow> nat \<Rightarrow> 'a list \<Rightarrow> 'a list" where
  "shuffleLoop rnd 0 shuffled = shuffled"
| "shuffleLoop rnd (Suc k) shuffled =
     (let i = Suc k; j = rnd i
      in shuffleLoop rnd k (shuffled[i := shuffled ! j, j := shuffled ! i]))"

definition shuffleDeck :: "(nat \<Rightarrow> nat) \<Rightarrow> 'a list \<Rightarrow> 'a list" where
  "shuffleDeck rnd deck = shuffleLoop rnd (length deck - 1) deck"

text \<open>A loop over a list of indices whose body may throw.\<close>

primrec forEach :: "('i \<Rightarrow> 's \<Rightarrow> 's option) \<Rightarrow> 'i list \<Rightarrow> 's \<Rightarrow> 's option" where
  "forEach body [] s = Some s"
| "forEach body (x # xs) s =
     (case body x s of None \<Rightarrow> None | Some s' \<Rightarrow> forEach body xs s')"

text \<open>
  The body of the dealing loops: \<open>deck[cardIndex++]\<close> is \<open>undefined\<close> past the end of
  the deck, and the assignment to its \<open>faceUp\<close> throws then.
\<close>

definition dealCard :: "addr list \<Rightarrow> nat \<Rightarrow> nat \<Rightarrow> nat \<times> state \<Rightarrow> (nat \<times> state) option" where
  "dealCard deck col row cs =
     (case cs of (cardIndex, st) \<Rightarrow>
        if cardIndex < length deck then
          (let crd = deck ! cardIndex
           in Some (cardIndex + 1,
                    st\<lparr>heap := setFaceUp crd (row = col) (heap st),
                       tableau := (tableau st)[col := tableau st ! col @ [crd]]\<rparr>))
        else None)"

definition dealColumn :: "addr list \<Rightarrow> nat \<Rightarrow> nat \<times> state \<Rightarrow> (nat \<times> state) option" where
  "dealColumn deck col cs = forEach (dealCard deck col) [0..<col + 1] cs"

text \<open>
  The deal: \<open>initGame\<close> after the shuffle, on the store \<open>hp\<close> that holds the fresh card
  objects and the shuffled array \<open>deck\<close> of references to them.
\<close>

definition deal :: "(addr \<Rightarrow> card) \<Rightarrow> addr list \<Rightarrow> state option" where
  "deal hp deck =
     (let st0 = \<lparr> heap = hp, stock = [], waste = [], foundations = (\<lambda>k. []),
                  tableau = [[], [], [], [], [], [], []],
                  selectedCards = None, winAlerts = 0 \<rparr>
      in case forEach (dealColumn deck) [0..<7] (0, st0) of
           None \<Rightarrow> None
         | Some (cardIndex, st1) \<Rightarrow> Some (st1\<lparr>stock := stock st1 @ drop cardIndex deck\<rparr>))"

text \<open>
  \<open>createDeck\<close> allocates the 52 card objects; the object made \<open>a\<close>-th gets address
  \<open>a\<close>, and the deck array holds the addresses in creation order.
\<close>

definition deckHeap :: "addr \<Rightarrow> card" where
  "deckHeap a = createDeck ! a"

definition deckArray :: "addr list" where
  "deckArray = [0..<length createDeck]"

definition initGame :: "(nat \<Rightarrow> nat) \<Rightarrow> state option" where
  "initGame rnd = deal deckHeap (shuffleDeck rnd deckArray)"

subsection \<open>Words of the specification\<close>

text \<open>The fixed rank order A < 2 < ... < 10 < J < Q < K, Ace counted as one.\<close>

fun rank :: "cvalue \<Rightarrow> nat" where
  "rank VA = 1"
| "rank V2 = 2"
| "rank V3 = 3"
| "rank V4 = 4"
| "rank V5 = 5"
| "rank V6 = 6"
| "rank V7 = 7"
| "rank V8 = 8"
| "rank V9 = 9"
| "rank V10 = 10"
| "rank VJ = 11"
| "rank VQ = 12"
| "rank VK = 13"

text \<open>The suit a foundation key stands for.\<close>

fun keySuit :: "fkey \<Rightarrow> suit" where
  "keySuit Kh = hearts"
| "keySuit Kd = diamonds"
| "keySuit Kc = clubs"
| "keySuit Ks = spades"

text \<open>The sum of the four foundation pile lengths.\<close>

definition foundationTotal :: "state \<Rightarrow> nat" where
  "foundationTotal st =
     length (foundations st Kh) + length (foundations st Kd) +
     length (foundations st Kc) + length (foundations st Ks)"

text \<open>Every card on the board, pile after pile.\<close>

definition boardCards :: "state \<Rightarrow> addr list" where
  "boardCards st =
     stock st @ waste st @
     foundations st Kh @ foundations st Kd @ foundations st Kc @ foundations st Ks @
     concat (tableau st)"

text \<open>
  The 52 card identities are partitioned across the piles: the ids of the cards on the
  board are pairwise different, and they are the ids of the deck.
\<close>

definition partitioned :: "state \<Rightarrow> bool" where
  "partitioned st =
     (distinct (map (\<lambda>a. cid (heap st a)) (boardCards st)) \<and>
      set (map (\<lambda>a. cid (heap st a)) (boardCards st)) = set (map cid createDeck) \<and>
      length (boardCards st) = 52)"

text \<open>
  The states a game can be in: a fresh deal, and from there every entry point the page
  wires to an input (a stock click, a card click, an empty-slot click, Escape or a click
  outside), with every argument, wherever the call returns.
\<close>

inductive reachable :: "state \<Rightarrow> bool" where
  r_init: "\<forall>i. rnd i \<le> i \<Longrightarrow> initGame rnd = Some st \<Longrightarrow> reachable st"
| r_draw: "reachable st \<Longrightarrow> reachable (drawFromStock st)"
| r_card: "reachable st \<Longrightarrow> handleCardClick cardId source event st = Some st' \<Longrightarrow> reachable st'"
| r_slot: "reachable st \<Longrightarrow> handleEmptySlotClick slot st = Some st' \<Longrightarrow> reachable st'"
| r_move: "reachable st \<Longrightarrow> attemptMove destination st = Some (r, st') \<Longrightarrow> reachable st'"
| r_deselect: "reachable st \<Longrightarrow> reachable (deselect st)"

subsection \<open>Notions for the proofs\<close>

text \<open>The store after the first \<open>n\<close> cards of column \<open>col\<close> have been dealt, starting
  at deck position \<open>ci\<close>.\<close>

definition dealtHeap :: "addr list \<Rightarrow> nat \<Rightarrow> nat \<Rightarrow> nat \<Rightarrow> (addr \<Rightarrow> card) \<Rightarrow> (addr \<Rightarrow> card)" where
  "dealtHeap deck col ci n hp =
     fold (\<lambda>row h. setFaceUp (deck ! (ci + row)) (row = col) h) [0..<n] hp"

text \<open>
  A run that \<open>moveCards\<close> can take from a source: the top card of the waste or of a
  foundation, or a non-empty tail of a tableau column.
\<close>

definition movable :: "state \<Rightarrow> addr list \<Rightarrow> pile_ref \<Rightarrow> bool" where
  "movable st cards source =
     (case source of
        Waste \<Rightarrow> waste st \<noteq> [] \<and> cards = [last (waste st)]
      | Foundation k \<Rightarrow> foundations st k \<noteq> [] \<and> cards = [last (foundations st k)]
      | Tableau i \<Rightarrow>
          i < length (tableau st) \<and> cards \<noteq> [] \<and> (\<exists>pre. tableau st ! i = pre @ cards))"

text \<open>
  The invariant of the board: seven columns, every card object of the deck on the board
  exactly once, ids in the store as \<open>createDeck\<close> wrote them, and a selection, when
  there is one, that holds a run of its source pile.
\<close>

definition boardInv :: "state \<Rightarrow> bool" where
  "boardInv st =
     (length (tableau st) = 7 \<and>
      mset (boardCards st) = mset deckArray \<and>
      (\<forall>a. cid (heap st a) = cid (deckHeap a)) \<and>
      (case selectedCards st of
         None \<Rightarrow> True
       | Some (cards, source) \<Rightarrow> movable st cards source))"

text \<open>The cards on the four foundations, as a multiset.\<close>

definition foundCards :: "(fkey \<Rightarrow> addr list) \<Rightarrow> addr multiset" where
  "foundCards f = mset (f Kh) + mset (f Kd) + mset (f Kc) + mset (f Ks)"

subsection \<open>A board for examples\<close>

text \<open>
  A small middle-game position over the deck's objects (hearts at addresses 0 to 12,
  diamonds from 13, clubs from 26, spades from 39): A and 2 of hearts on their foundation,
  4 and 3 of hearts on the waste, a hidden 2 of spades under the 6 of diamonds, a hidden
  7 of diamonds under the 5 of spades, and the queen of spades on the king of hearts.
\<close>

definition exState :: state where
  "exState =
     \<lparr> heap = (\<lambda>a. (deckHeap a)\<lparr>faceUp := a \<in> set [0, 1, 2, 3, 12, 18, 43, 50]\<rparr>),
       stock = [49, 51],
       waste = [3, 2],
       foundations = (\<lambda>k. if k = Kh then [0, 1] else []),
       tableau = [[], [40, 18], [19, 43], [12, 50], [], [], []],
       selectedCards = None,
       winAlerts = 0 \<rparr>"

subsection \<open>A game that is won\<close>

text \<open>The inputs the page passes on: a stock click, a card click, an empty-slot click.\<close>

datatype uiop = Draw | Click string pile_ref "nat option" | Slot pile_ref

fun uiStep :: "uiop \<Rightarrow> state \<Rightarrow> state option" where
  "uiStep Draw st = Some (drawFromStock st)"
| "uiStep (Click cardId source event) st = handleCardClick cardId source event st"
| "uiStep (Slot slot) st = handleEmptySlotClick slot st"

fun runOps :: "uiop list \<Rightarrow> state \<Rightarrow> state option" where
  "runOps [] st = Some st"
| "runOps (x # xs) st = (case uiStep x st of None \<Rightarrow> None | Some st' \<Rightarrow> runOps xs st')"

text \<open>
  Random draws under which \<open>shuffleDeck\<close> reverses the deck: the swaps of the upper half
  mirror it, the lower half stays.
\<close>

definition winRnd :: "nat \<Rightarrow> nat" where
  "winRnd i = (if 26 \<le> i then 51 - i else i)"

text \<open>
  On the reversed deck every card comes up in creation order: 24 times a draw and a
  double click on the waste, then a double click on each tableau card from the last
  column to the first. The last three inputs take the king of spades back off its
  foundation onto the empty first column and return it with a double click.
\<close>

definition winOps :: "uiop list" where
  "winOps =
     [Draw, Click ''A-hearts'' Waste (Some 2), Draw, Click ''2-hearts'' Waste (Some 2),
      Draw, Click ''3-hearts'' Waste (Some 2), Draw, Click ''4-hearts'' Waste (Some 2),
      Draw, Click ''5-hearts'' Waste (Some 2), Draw, Click ''6-hearts'' Waste (Some 2),
      Draw, Click ''7-hearts'' Waste (Some 2), Draw, Click ''8-hearts'' Waste (Some 2),
      Draw, Click ''9-hearts'' Waste (Some 2), Draw,
      Click ''10-hearts'' Waste (Some 2), Draw, Click ''J-hearts'' Waste (Some 2),
      Draw, Click ''Q-hearts'' Waste (Some 2), Draw, Click ''K-hearts'' Waste (Some 2),
      Draw, Click ''A-diamonds'' Waste (Some 2), Draw,
      Click ''2-diamonds'' Waste (Some 2), Draw, Click ''3-diamonds'' Waste (Some 2),
      Draw, Click ''4-diamonds'' Waste (Some 2), Draw,
      Click ''5-diamonds'' Waste (Some 2), Draw, Click ''6-diamonds'' Waste (Some 2),
      Draw, Click ''7-diamonds'' Waste (Some 2), Draw,
      Click ''8-diamonds'' Waste (Some 2), Draw, Click ''9-diamonds'' Waste (Some 2),
      Draw, Click ''10-diamonds'' Waste (Some 2), Draw,
      Click ''J-diamonds'' Waste (Some 2), Click ''Q-diamonds'' (Tableau 6) (Some 2),
      Click ''K-diamonds'' (Tableau 6) (Some 2),
      Click ''A-clubs'' (Tableau 6) (Some 2), Click ''2-clubs'' (Tableau 6) (Some 2),
      Click ''3-clubs'' (Tableau 6) (Some 2), Click ''4-clubs'' (Tableau 6) (Some 2),
      Click ''5-clubs'' (Tableau 6) (Some 2), Click ''6-clubs'' (Tableau 5) (Some 2),
      Click ''7-clubs'' (Tableau 5) (Some 2), Click ''8-clubs'' (Tableau 5) (Some 2),
      Click ''9-clubs'' (Tableau 5) (Some 2), Click ''10-clubs'' (Tableau 5) (Some 2),
      Click ''J-clubs'' (Tableau 5) (Some 2), Click ''Q-clubs'' (Tableau 4) (Some 2),
      Click ''K-clubs'' (Tableau 4) (Some 2), Click ''A-spades'' (Tableau 4) (Some 2),
      Click ''2-spades'' (Tableau 4) (Some 2), Click ''3-spades'' (Tableau 4) (Some 2),
      Click ''4-spades'' (Tableau 3) (Some 2), Click ''5-spades'' (Tableau 3) (Some 2),
      Click ''6-spades'' (Tableau 3) (Some 2), Click ''7-spades'' (Tableau 3) (Some 2),
      Click ''8-spades'' (Tableau 2) (Some 2), Click ''9-spades'' (Tableau 2) (Some 2),
      Click ''10-spades'' (Tableau 2) (Some 2),
      Click ''J-spades'' (Tableau 1) (Some 2), Click ''Q-spades'' (Tableau 1) (Some 2),
      Click ''K-spades'' (Tableau 0) (Some 2),
      Click ''K-spades'' (Foundation Ks) (Some 1), Slot (Tableau 0),
      Click ''K-spades'' (Tableau 0) (Some 2)]"

text \<open>The store the deal leaves when the deck is dealt in reverse creation order.\<close>

definition startHeap :: "addr \<Rightarrow> card" where
  "startHeap =
     dealtHeap (rev deckArray) 6 21 7 (dealtHeap (rev deckArray) 5 15 6
       (dealtHeap (rev deckArray) 4 10 5 (dealtHeap (rev deckArray) 3 6 4
         (dealtHeap (rev deckArray) 2 3 3 (dealtHeap (rev deckArray) 1 1 2
           (dealtHeap (rev deckArray) 0 0 1 deckHeap))))))"

definition winStart :: state where
  "winStart =
     \<lparr> heap = startHeap,
       stock = [23, 22, 21, 20, 19, 18, 17, 16, 15, 14, 13, 12,
                11, 10, 9, 8, 7, 6, 5, 4, 3, 2, 1, 0],
       waste = [],
       foundations = (\<lambda>k. []),
       tableau = [[51], [50, 49], [48, 47, 46], [45, 44, 43, 42], [41, 40, 39, 38, 37],
                  [36, 35, 34, 33, 32, 31], [30, 29, 28, 27, 26, 25, 24]],
       selectedCards = None,
       winAlerts = 0 \<rparr>"

text \<open>
  The board after the first 76 inputs: every card on its foundation, every card that was
  drawn or uncovered turned face-up, and one win alert scheduled.
\<close>

definition wonState :: state where
  "wonState =
     \<lparr> heap = fold (\<lambda>a hp. setFaceUp a True hp)
                 [0, 1, 2, 3, 4, 5, 6, 7, 8, 9, 10, 11, 12, 13, 14, 15, 16, 17, 18, 19,
                 20, 21, 22, 23, 25, 26, 27, 28, 29, 30, 32, 33, 34, 35, 36, 38, 39,
                 40, 41, 43, 44, 45, 47, 48, 50]
                startHeap,
       stock = [],
       waste = [],
       foundations = (\<lambda>k. [])
         (Kh := [0, 1, 2, 3, 4, 5, 6, 7, 8, 9, 10, 11, 12],
          Kd := [13, 14, 15, 16, 17, 18, 19, 20, 21, 22, 23, 24, 25],
          Kc := [26, 27, 28, 29, 30, 31, 32, 33, 34, 35, 36, 37, 38],
          Ks := [39, 40, 41, 42, 43, 44, 45, 46, 47, 48, 49, 50, 51]),
       tableau = [[], [], [], [], [], [], []],
       selectedCards = None,
       winAlerts = 1 \<rparr>"

section \<open>Basic facts\<close>

lemma getValueIndex_rank: "getValueIndex v = int (rank v) - 1"
  by (cases v) (simp_all add: getValueIndex_def indexOf_def VALUES_def)

lemma deck_table:
  "deckHeap 0 = createCard hearts VA"
  "deckHeap (Suc 0) = createCard hearts V2"
  "deckHeap 2 = createCard hearts V3"
  "deckHeap 3 = createCard hearts V4"
  "deckHeap 4 = createCard hearts V5"
  "deckHeap 5 = createCard hearts V6"
  "deckHeap 6 = createCard hearts V7"
  "deckHeap 7 = createCard hearts V8"
  "deckHeap 8 = createCard hearts V9"
  "deckHeap 9 = createCard hearts V10"
  "deckHeap 10 = createCard hearts VJ"
  "deckHeap 11 = createCard hearts VQ"
  "deckHeap 12 = createCard hearts VK"
  "deckHeap 13 = createCard diamonds VA"
  "deckHeap 14 = createCard diamonds V2"
  "deckHeap 15 = createCard diamonds V3"
  "deckHeap 16 = createCard diamonds V4"
  "deckHeap 17 = createCard diamonds V5"
  "deckHeap 18 = createCard diamonds V6"
  "deckHeap 19 = createCard diamonds V7"
  "deckHeap 20 = createCard diamonds V8"
  "deckHeap 21 = createCard diamonds V9"
  "deckHeap 22 = createCard diamonds V10"
  "deckHeap 23 = createCard diamonds VJ"
  "deckHeap 24 = createCard diamonds VQ"
  "deckHeap 25 = createCard diamonds VK"
  "deckHeap 26 = createCard clubs VA"
  "deckHeap 27 = createCard clubs V2"
  "deckHeap 28 = createCard clubs V3"
  "deckHeap 29 = createCard clubs V4"
  "deckHeap 30 = createCard clubs V5"
  "deckHeap 31 = createCard clubs V6"
  "deckHeap 32 = createCard clubs V7"
  "deckHeap 33 = createCard clubs V8"
  "deckHeap 34 = createCard clubs V9"
  "deckHeap 35 = createCard clubs V10"
  "deckHeap 36 = createCard clubs VJ"
  "deckHeap 37 = createCard clubs VQ"
  "deckHeap 38 = createCard clubs VK"
  "deckHeap 39 = createCard spades VA"
  "deckHeap 40 = createCard spades V2"
  "deckHeap 41 = createCard spades V3"
  "deckHeap 42 = createCard spades V4"
  "deckHeap 43 = createCard spades V5"
  "deckHeap 44 = createCard spades V6"
  "deckHeap 45 = createCard spades V7"
  "deckHeap 46 = createCard spades V8"
  "deckHeap 47 = createCard spades V9"
  "deckHeap 48 = createCard spades V10"
  "deckHeap 49 = createCard spades VJ"
  "deckHeap 50 = createCard spades VQ"
  "deckHeap 51 = createCard spades VK"
  by (simp_all add: deckHeap_def createDeck_def VALUES_def SUITS_def)

lemma exState_deselected: "exState\<lparr>selectedCards := None\<rparr> = exState"
  by (simp add: exState_def)

lemma getSuitShort_keySuit: "(getSuitShort su = k) = (su = keySuit k)"
  by (cases su; cases k) (simp_all add: getSuitShort_def)

lemma deselect_simps:
  "heap (deselect st) = heap st" "stock (deselect st) = stock st"
  "waste (deselect st) = waste st" "foundations (deselect st) = foundations st"
  "tableau (deselect st) = tableau st" "selectedCards (deselect st) = None"
  "winAlerts (deselect st) = winAlerts st"
  by (simp_all add: deselect_def)

lemma checkWin_simps:
  "heap (checkWin st) = heap st" "stock (checkWin st) = stock st"
  "waste (checkWin st) = waste st" "foundations (checkWin st) = foundations st"
  "tableau (checkWin st) = tableau st" "selectedCards (checkWin st) = selectedCards st"
  by (simp_all add: checkWin_def Let_def)

lemma setFaceUp_apply:
  "setFaceUp a b hp x = (if x = a then (hp a)\<lparr>faceUp := b\<rparr> else hp x)"
  by (simp add: setFaceUp_def)

lemma fold_setFaceUp:
  "fold (\<lambda>crd hp. setFaceUp crd b hp) xs hp a =
     (if a \<in> set xs then (hp a)\<lparr>faceUp := b\<rparr> else hp a)"
  by (induction xs arbitrary: hp) (auto simp: setFaceUp_apply)

lemma findIndex_append:
  "\<forall>x\<in>set pre. \<not> P x \<Longrightarrow> P c0 \<Longrightarrow> findIndex P (pre @ c0 # cs) = int (length pre)"
  by (induction pre) (auto simp: Let_def)

lemma js_splice_suffix: "js_splice (int (length pre)) (length cards) (pre @ cards) = pre"
  by (simp add: js_splice_def Let_def)

section \<open>Move validation\<close>

text \<open>
  C3. \<open>canMoveToFoundation(card, foundationKey)\<close> is false when the card's suit is not
  the suit of the foundation key; on the empty matching foundation it is true exactly for
  an Ace; on a non-empty one it is true exactly when the card's rank is one above the rank
  of the foundation's top card, in the order A < 2 < ... < 10 < J < Q < K.
\<close>

theorem canMoveToFoundation_rules:
  "(suit (heap st crd) \<noteq> keySuit k \<longrightarrow> \<not> canMoveToFoundation st crd k) \<and>
   (suit (heap st crd) = keySuit k \<and> foundations st k = [] \<longrightarrow>
      canMoveToFoundation st crd k = (val (heap st crd) = VA)) \<and>
   (suit (heap st crd) = keySuit k \<and> foundations st k \<noteq> [] \<longrightarrow>
      canMoveToFoundation st crd k =
        (rank (val (heap st crd)) = rank (val (heap st (last (foundations st k)))) + 1))"
  by (auto simp: canMoveToFoundation_def Let_def getSuitShort_keySuit getValueIndex_rank)

theorem canMoveToFoundation_rules_witness:
  "suit (heap exState 2) = keySuit Kh \<and> foundations exState Kh \<noteq> [] \<and>
   canMoveToFoundation exState 2 Kh \<and>
   \<not> canMoveToFoundation exState 12 Kh \<and>
   \<not> canMoveToFoundation exState 43 Kh \<and>
   \<not> canMoveToFoundation exState 40 Ks"
  using canMoveToFoundation_rules [of exState 2 Kh]
        canMoveToFoundation_rules [of exState 12 Kh]
        canMoveToFoundation_rules [of exState 43 Kh]
        canMoveToFoundation_rules [of exState 40 Ks]
  by (simp add: exState_def deck_table createCard_def)

text \<open>
  C4. For a non-empty run and a tableau column, \<open>canMoveToTableau(cards, targetCol)\<close> is
  true on an empty column exactly when the run's first card is a King; on a non-empty
  column it is false when the column's top card is face-down, false when the top card has
  the colour of the run's first card, and otherwise true exactly when the first card's
  rank is one below the rank of the top card.
\<close>

theorem canMoveToTableau_rules:
  assumes "j < length (tableau st)" and "cards \<noteq> []"
  shows "(tableau st ! j = [] \<longrightarrow>
            canMoveToTableau st cards j = Some (val (heap st (hd cards)) = VK)) \<and>
         (tableau st ! j \<noteq> [] \<and> \<not> faceUp (heap st (last (tableau st ! j))) \<longrightarrow>
            canMoveToTableau st cards j = Some False) \<and>
         (tableau st ! j \<noteq> [] \<and>
          color (heap st (last (tableau st ! j))) = color (heap st (hd cards)) \<longrightarrow>
            canMoveToTableau st cards j = Some False) \<and>
         (tableau st ! j \<noteq> [] \<longrightarrow>
            canMoveToTableau st cards j =
              Some (faceUp (heap st (last (tableau st ! j))) \<and>
                    color (heap st (last (tableau st ! j))) \<noteq> color (heap st (hd cards)) \<and>
                    rank (val (heap st (hd cards))) + 1 =
                      rank (val (heap st (last (tableau st ! j))))))"
proof -
  obtain c0 cs where cards: "cards = c0 # cs"
    using assms(2) by (cases cards) auto
  show ?thesis
    using assms(1)
    by (auto simp: canMoveToTableau_def Let_def cards getValueIndex_rank)
qed

theorem canMoveToTableau_rules_witness:
  "1 < length (tableau exState) \<and> [43] \<noteq> ([]::addr list) \<and> tableau exState ! 1 \<noteq> [] \<and>
   canMoveToTableau exState [43] 1 = Some True \<and>
   canMoveToTableau exState [12] 0 = Some True \<and>
   canMoveToTableau exState [2] 1 = Some False"
  using canMoveToTableau_rules [of 1 exState "[43]"]
        canMoveToTableau_rules [of 0 exState "[12]"]
        canMoveToTableau_rules [of 1 exState "[2]"]
  by (simp add: exState_def deck_table createCard_def)

section \<open>Move execution\<close>

lemma moveCards_selection:
  "moveCards cards source destination st = Some st' \<Longrightarrow> selectedCards st' = None"
  by (auto simp: moveCards_def deselect_simps checkWin_simps split: option.splits)

lemma removeFromSource_returns:
  "(\<And>i. source = Tableau i \<Longrightarrow> i < length (tableau st)) \<Longrightarrow> cards \<noteq> [] \<Longrightarrow>
   \<exists>st1. removeFromSource cards source st = Some st1 \<and> length (tableau st1) = length (tableau st)"
  by (cases source; cases cards) (auto simp: removeFromSource_def Let_def)

lemma addToDestination_returns:
  "(\<And>j. destination = Tableau j \<Longrightarrow> j < length (tableau st)) \<Longrightarrow>
   \<exists>st2. addToDestination cards destination st = Some st2"
  by (cases destination) (auto simp: addToDestination_def)

lemma moveCards_returns:
  assumes "\<And>i. source = Tableau i \<Longrightarrow> i < length (tableau st)"
      and "\<And>j. destination = Tableau j \<Longrightarrow> j < length (tableau st)"
      and "cards \<noteq> []"
  shows "\<exists>st'. moveCards cards source destination st = Some st'"
proof -
  obtain st1 where 1: "removeFromSource cards source st = Some st1"
    and len: "length (tableau st1) = length (tableau st)"
    using removeFromSource_returns [of source st cards] assms by blast
  obtain st2 where 2: "addToDestination cards destination st1 = Some st2"
    using addToDestination_returns [of destination st1 cards] assms(2) len by auto
  show ?thesis by (simp add: moveCards_def 1 2)
qed

text \<open>
  C7. A call of \<open>attemptMove\<close> that executes no move reports failure, leaves the selection
  absent and leaves stock, waste, foundations and tableau as they were: without a
  selection it returns \<open>undefined\<close> at once; with one, a foundation destination fails
  for every run that is not a single card passing \<open>canMoveToFoundation\<close>, a tableau
  destination fails where \<open>canMoveToTableau\<close> is false, and both return \<open>false\<close> after
  clearing the selection. Whatever the cause, a return other than \<open>true\<close> comes with every
  pile, every card and the alert count unchanged.
\<close>

theorem attemptMove_failure:
  "(selectedCards st = None \<longrightarrow> attemptMove dest st = Some (RetUndefined, st)) \<and>
   (selectedCards st = Some (cards, src) \<and> dest = Foundation k \<and>
    \<not> (length cards = 1 \<and> canMoveToFoundation st (hd cards) k) \<longrightarrow>
      attemptMove dest st = Some (RetFalse, st\<lparr>selectedCards := None\<rparr>)) \<and>
   (selectedCards st = Some (cards, src) \<and> dest = Tableau j \<and>
    canMoveToTableau st cards j = Some False \<longrightarrow>
      attemptMove dest st = Some (RetFalse, st\<lparr>selectedCards := None\<rparr>)) \<and>
   (\<forall>r st'. attemptMove dest st = Some (r, st') \<and> r \<noteq> RetTrue \<longrightarrow>
      selectedCards st' = None \<and> stock st' = stock st \<and> waste st' = waste st \<and>
      foundations st' = foundations st \<and> tableau st' = tableau st \<and>
      heap st' = heap st \<and> winAlerts st' = winAlerts st)"
  by (auto simp: attemptMove_def deselect_def split: option.splits pile_ref.splits bool.splits if_splits)

theorem attemptMove_failure_witness:
  "attemptMove (Foundation Kh) (exState\<lparr>selectedCards := Some ([12, 50], Tableau 3)\<rparr>) =
     Some (RetFalse, exState) \<and>
   attemptMove (Tableau 1) (exState\<lparr>selectedCards := Some ([2], Waste)\<rparr>) =
     Some (RetFalse, exState) \<and>
   attemptMove (Tableau 1) exState = Some (RetUndefined, exState)"
proof -
  let ?a = "exState\<lparr>selectedCards := Some ([12, 50], Tableau 3)\<rparr>"
  let ?b = "exState\<lparr>selectedCards := Some ([2], Waste)\<rparr>"
  have a: "selectedCards ?a = Some ([12, 50], Tableau 3) \<and> Foundation Kh = Foundation Kh \<and>
           \<not> (length [12, 50 :: addr] = 1 \<and> canMoveToFoundation ?a (hd [12, 50]) Kh)"
    by simp
  have b: "selectedCards ?b = Some ([2], Waste) \<and> Tableau 1 = Tableau 1 \<and>
           canMoveToTableau ?b [2] 1 = Some False"
    by (simp add: exState_def canMoveToTableau_def deck_table createCard_def)
  have c: "selectedCards exState = None"
    by (simp add: exState_def)
  have 1: "attemptMove (Foundation Kh) ?a = Some (RetFalse, ?a\<lparr>selectedCards := None\<rparr>)"
    by (rule mp [OF conjunct1 [OF conjunct2 [OF attemptMove_failure]] a])
  have 2: "attemptMove (Tableau 1) ?b = Some (RetFalse, ?b\<lparr>selectedCards := None\<rparr>)"
    by (rule mp [OF conjunct1 [OF conjunct2 [OF conjunct2 [OF attemptMove_failure]]] b])
  have 3: "attemptMove (Tableau 1) exState = Some (RetUndefined, exState)"
    by (rule mp [OF conjunct1 [OF attemptMove_failure] c])
  have 4: "?a\<lparr>selectedCards := None\<rparr> = exState" "?b\<lparr>selectedCards := None\<rparr> = exState"
    by (simp_all add: exState_deselected)
  show ?thesis
    using 1 2 3 unfolding 4 by (intro conjI)
qed

text \<open>
  C8. Every call of \<open>attemptMove\<close> that returns, with \<open>true\<close>, \<open>false\<close> or
  \<open>undefined\<close>, every \<open>moveCards\<close> that returns and every call of \<open>drawFromStock\<close>
  leaves the selection absent. \<open>attemptMove\<close> does return whenever the selected run is
  not empty and the tableau indices of its source and of the destination are columns of
  the board.
\<close>

theorem selection_cleared:
  "selectedCards (drawFromStock st) = None \<and>
   (\<forall>r st'. attemptMove dest st = Some (r, st') \<longrightarrow> selectedCards st' = None) \<and>
   (\<forall>st'. moveCards cards src dest st = Some st' \<longrightarrow> selectedCards st' = None) \<and>
   ((\<forall>cs i. selectedCards st = Some (cs, Tableau i) \<longrightarrow> i < length (tableau st)) \<and>
    (\<forall>cs sr. selectedCards st = Some (cs, sr) \<longrightarrow> cs \<noteq> []) \<and>
    (\<forall>j. dest = Tableau j \<longrightarrow> j < length (tableau st)) \<longrightarrow>
      (\<exists>r st'. attemptMove dest st = Some (r, st')))"
proof (intro conjI allI impI)
  show "selectedCards (drawFromStock st) = None"
    by (simp add: drawFromStock_def deselect_def Let_def)
next
  fix r st' assume "attemptMove dest st = Some (r, st')"
  then show "selectedCards st' = None"
    by (auto simp: attemptMove_def deselect_def split: option.splits pile_ref.splits bool.splits if_splits
             dest: moveCards_selection)
next
  fix st' assume "moveCards cards src dest st = Some st'"
  then show "selectedCards st' = None" by (rule moveCards_selection)
next
  assume wf: "(\<forall>cs i. selectedCards st = Some (cs, Tableau i) \<longrightarrow> i < length (tableau st)) \<and>
    (\<forall>cs sr. selectedCards st = Some (cs, sr) \<longrightarrow> cs \<noteq> []) \<and>
    (\<forall>j. dest = Tableau j \<longrightarrow> j < length (tableau st))"
  show "\<exists>r st'. attemptMove dest st = Some (r, st')"
  proof (cases "selectedCards st")
    case None
    then show ?thesis by (simp add: attemptMove_def)
  next
    case (Some sel)
    obtain cs sr where sel: "sel = (cs, sr)" by (cases sel)
    have ne: "cs \<noteq> []" using wf Some sel by blast
    have src: "\<And>i. sr = Tableau i \<Longrightarrow> i < length (tableau st)" using wf Some sel by blast
    show ?thesis
    proof (cases dest)
      case Waste
      then show ?thesis by (simp add: attemptMove_def Some sel)
    next
      case (Tableau j)
      have j: "j < length (tableau st)" using wf Tableau by blast
      have "\<exists>b. canMoveToTableau st cs j = Some b"
        using j ne by (cases cs) (auto simp: canMoveToTableau_def Let_def)
      then obtain b where b: "canMoveToTableau st cs j = Some b" ..
      obtain st' where "moveCards cs sr (Tableau j) st = Some st'"
        using moveCards_returns [of sr st "Tableau j" cs] src j ne by auto
      then show ?thesis
        by (cases b) (simp_all add: attemptMove_def Some sel Tableau b)
    next
      case (Foundation k)
      obtain st' where "moveCards cs sr (Foundation k) st = Some st'"
        using moveCards_returns [of sr st "Foundation k" cs] src ne by auto
      then show ?thesis
        by (simp add: attemptMove_def Some sel Foundation)
    qed
  qed
qed

theorem selection_cleared_witness:
  "selectedCards (drawFromStock (exState\<lparr>selectedCards := Some ([43], Tableau 2)\<rparr>)) = None \<and>
   (\<exists>r st'. attemptMove (Tableau 1) (exState\<lparr>selectedCards := Some ([43], Tableau 2)\<rparr>) =
              Some (r, st') \<and> selectedCards st' = None)"
proof -
  let ?a = "exState\<lparr>selectedCards := Some ([43], Tableau 2)\<rparr>"
  note inst = selection_cleared [where st = ?a and dest = "Tableau 1"]
  have wf: "(\<forall>cs i. selectedCards ?a = Some (cs, Tableau i) \<longrightarrow> i < length (tableau ?a)) \<and>
    (\<forall>cs sr. selectedCards ?a = Some (cs, sr) \<longrightarrow> cs \<noteq> []) \<and>
    (\<forall>j. Tableau 1 = Tableau j \<longrightarrow> j < length (tableau ?a))"
    by (simp add: exState_def)
  from inst wf obtain r st' where r: "attemptMove (Tableau 1) ?a = Some (r, st')"
    by blast
  with inst have "selectedCards st' = None" by blast
  with r inst show ?thesis by blast
qed

text \<open>
  C6. With the stock empty and the waste not, \<open>drawFromStock\<close> makes the reversed waste
  the new stock, sets \<open>faceUp\<close> to false on every card of it and on no other, and empties
  the waste; the next \<open>n\<close> draws then give back the first \<open>n\<close> cards of the old waste in
  their old order, so drawing the whole new stock replays the draw order that built the
  waste. With stock and waste both empty nothing changes but the selection, which is
  cleared.
\<close>

lemma draw_from_nonempty:
  "stock st = pre @ [d] \<Longrightarrow>
   stock (drawFromStock st) = pre \<and> waste (drawFromStock st) = waste st @ [d] \<and>
   heap (drawFromStock st) = setFaceUp d True (heap st) \<and>
   foundations (drawFromStock st) = foundations st \<and>
   tableau (drawFromStock st) = tableau st"
  by (simp add: drawFromStock_def deselect_def Let_def)

lemma draw_many:
  "stock st = pre @ rev ds \<Longrightarrow>
   stock ((drawFromStock ^^ length ds) st) = pre \<and>
   waste ((drawFromStock ^^ length ds) st) = waste st @ ds"
proof (induction ds arbitrary: st)
  case Nil
  then show ?case by simp
next
  case (Cons d ds)
  have "stock st = (pre @ rev ds) @ [d]" using Cons.prems by simp
  from draw_from_nonempty [OF this]
  have 1: "stock (drawFromStock st) = pre @ rev ds"
    and 2: "waste (drawFromStock st) = waste st @ [d]" by simp_all
  from Cons.IH [OF 1] 2 show ?case
    by (simp add: funpow_swap1)
qed

theorem recycle_replays_draw_order:
  "(stock st = [] \<and> waste st \<noteq> [] \<longrightarrow>
      stock (drawFromStock st) = rev (waste st) \<and>
      waste (drawFromStock st) = [] \<and>
      (\<forall>a. heap (drawFromStock st) a =
            (if a \<in> set (waste st) then (heap st a)\<lparr>faceUp := False\<rparr> else heap st a)) \<and>
      foundations (drawFromStock st) = foundations st \<and>
      tableau (drawFromStock st) = tableau st \<and>
      (\<forall>n. n \<le> length (waste st) \<longrightarrow>
         waste ((drawFromStock ^^ n) (drawFromStock st)) = take n (waste st) \<and>
         stock ((drawFromStock ^^ n) (drawFromStock st)) = rev (drop n (waste st)))) \<and>
   (stock st = [] \<and> waste st = [] \<longrightarrow> drawFromStock st = st\<lparr>selectedCards := None\<rparr>)"
proof (intro conjI impI allI)
  assume a: "stock st = [] \<and> waste st \<noteq> []"
  let ?s = "drawFromStock st"
  show s: "stock ?s = rev (waste st)" and w: "waste ?s = []"
    and "foundations ?s = foundations st" and "tableau ?s = tableau st"
    using a by (simp_all add: drawFromStock_def deselect_def Let_def)
  show "heap ?s x = (if x \<in> set (waste st) then (heap st x)\<lparr>faceUp := False\<rparr> else heap st x)" for x
    using a by (simp add: drawFromStock_def deselect_def Let_def fold_setFaceUp)
  fix n assume n: "n \<le> length (waste st)"
  have "stock ?s = rev (drop n (waste st)) @ rev (take n (waste st))"
    by (simp add: s flip: rev_append)
  moreover have "length (take n (waste st)) = n" using n by simp
  ultimately have "stock ((drawFromStock ^^ n) ?s) = rev (drop n (waste st)) \<and>
      waste ((drawFromStock ^^ n) ?s) = waste ?s @ take n (waste st)"
    using draw_many [of ?s "rev (drop n (waste st))" "take n (waste st)"] by simp
  then show "waste ((drawFromStock ^^ n) ?s) = take n (waste st)"
    and "stock ((drawFromStock ^^ n) ?s) = rev (drop n (waste st))"
    by (simp_all add: w)
next
  assume "stock st = [] \<and> waste st = []"
  then show "drawFromStock st = st\<lparr>selectedCards := None\<rparr>"
    by (simp add: drawFromStock_def deselect_def Let_def)
qed

theorem recycle_replays_draw_order_witness:
  "stock (exState\<lparr>stock := []\<rparr>) = [] \<and> waste (exState\<lparr>stock := []\<rparr>) = [3, 2] \<and>
   stock (drawFromStock (exState\<lparr>stock := []\<rparr>)) = [2, 3] \<and>
   waste (drawFromStock (exState\<lparr>stock := []\<rparr>)) = [] \<and>
   waste ((drawFromStock ^^ 2) (drawFromStock (exState\<lparr>stock := []\<rparr>))) = [3, 2]"
proof -
  let ?s = "exState\<lparr>stock := []\<rparr>"
  have h: "stock ?s = [] \<and> waste ?s \<noteq> []" and w: "waste ?s = [3, 2]"
    by (simp_all add: exState_def)
  from recycle_replays_draw_order [of ?s] h
  have "stock (drawFromStock ?s) = rev (waste ?s)"
    and "waste (drawFromStock ?s) = []"
    and "\<forall>n. n \<le> length (waste ?s) \<longrightarrow>
           waste ((drawFromStock ^^ n) (drawFromStock ?s)) = take n (waste ?s)"
    by blast+
  then show ?thesis using h w by simp
qed

lemma removeFromSource_run:
  assumes "i < length (tableau st)" and "tableau st ! i = rest @ cards" and "cards \<noteq> []"
      and "\<forall>c\<in>set rest. cid (heap st c) \<noteq> cid (heap st (hd cards))"
  shows "removeFromSource cards (Tableau i) st =
           Some (st\<lparr>tableau := (tableau st)[i := rest],
                   heap := (if rest \<noteq> [] \<and> \<not> faceUp (heap st (last rest))
                            then setFaceUp (last rest) True (heap st) else heap st)\<rparr>)"
proof -
  obtain c0 cs where cards: "cards = c0 # cs"
    using assms(3) by (cases cards) auto
  have idx: "findIndex (\<lambda>c. cid (heap st c) = cid (heap st c0)) (rest @ c0 # cs) = int (length rest)"
    using assms(4) by (intro findIndex_append) (auto simp: cards)
  have spl: "js_splice (int (length rest)) (length (c0 # cs)) (rest @ c0 # cs) = rest"
    by (rule js_splice_suffix)
  show ?thesis
    using assms(1,2) idx spl
    by (simp add: removeFromSource_def cards Let_def)
qed

lemma removeFromSource_heap:
  "removeFromSource cards (Tableau i) st = Some st1 \<Longrightarrow>
   heap st1 = heap st \<or>
   (\<exists>a. \<not> faceUp (heap st a) \<and> heap st1 = (heap st)(a := (heap st a)\<lparr>faceUp := True\<rparr>))"
  by (auto simp: removeFromSource_def Let_def setFaceUp_def split: if_splits list.splits)

lemma addToDestination_heap:
  "addToDestination cards dest st = Some st2 \<Longrightarrow> heap st2 = heap st"
  by (auto simp: addToDestination_def split: pile_ref.splits if_splits)

lemma removeFromSource_top:
  assumes "removeFromSource cards (Tableau i) st = Some st1"
  shows "i < length (tableau st1) \<and> length (tableau st1) = length (tableau st) \<and>
         (tableau st1 ! i \<noteq> [] \<longrightarrow> faceUp (heap st1 (last (tableau st1 ! i)))) \<and>
         (heap st1 = heap st \<or>
          (tableau st1 ! i \<noteq> [] \<and> \<not> faceUp (heap st (last (tableau st1 ! i))) \<and>
           heap st1 = (heap st)(last (tableau st1 ! i) :=
                                  (heap st (last (tableau st1 ! i)))\<lparr>faceUp := True\<rparr>)))"
proof -
  from assms have i: "i < length (tableau st)"
    by (auto simp: removeFromSource_def split: if_splits)
  show ?thesis
  proof (cases cards)
    case Nil
    with assms i have "st1 = st" "tableau st ! i = []"
      by (auto simp: removeFromSource_def split: if_splits)
    then show ?thesis using i by simp
  next
    case (Cons c0 cs)
    define pile' where "pile' = js_splice (findIndex (\<lambda>c. cid (heap st c) = cid (heap st c0))
        (tableau st ! i)) (length cards) (tableau st ! i)"
    have "st1 = (if pile' \<noteq> [] \<and> \<not> faceUp (heap st (last pile'))
                 then st\<lparr>tableau := (tableau st)[i := pile'],
                         heap := setFaceUp (last pile') True (heap st)\<rparr>
                 else st\<lparr>tableau := (tableau st)[i := pile']\<rparr>)"
      using assms i by (auto simp: removeFromSource_def Cons Let_def pile'_def split: if_splits)
    then show ?thesis
      using i by (auto simp: setFaceUp_def)
  qed
qed

lemma addToDestination_other:
  assumes "addToDestination cards dest st1 = Some st2" and "dest \<noteq> Tableau i"
  shows "tableau st2 ! i = tableau st1 ! i \<and> heap st2 = heap st1"
  using assms by (cases dest) (auto simp: addToDestination_def split: if_splits)

text \<open>
  C9. A \<open>moveCards\<close> from a tableau column changes the store in at most one place, and
  only by turning a face-down card face-up: the card that is the top of the source column
  afterwards, which is face-up after every such move that leaves the column non-empty.
  When the moved run is the tail of the column (found by the id of its first card), the
  cards left are the column after the move; if they are not empty and their last card is
  face-down, exactly that card becomes face-up and every other card object is as before;
  if none are left or the last is already face-up, no card changes.
\<close>

theorem moveCards_autoflip:
  "(\<forall>st'. moveCards cards (Tableau i) dest st = Some st' \<longrightarrow>
      (heap st' = heap st \<or>
       (\<exists>a. \<not> faceUp (heap st a) \<and>
            heap st' = (heap st)(a := (heap st a)\<lparr>faceUp := True\<rparr>) \<and>
            (dest \<noteq> Tableau i \<longrightarrow> tableau st' ! i \<noteq> [] \<and> a = last (tableau st' ! i)))) \<and>
      (dest \<noteq> Tableau i \<and> tableau st' ! i \<noteq> [] \<longrightarrow>
         faceUp (heap st' (last (tableau st' ! i))))) \<and>
   (i < length (tableau st) \<and> tableau st ! i = rest @ cards \<and> cards \<noteq> [] \<and>
    (\<forall>c\<in>set rest. cid (heap st c) \<noteq> cid (heap st (hd cards))) \<and>
    (\<forall>j. dest = Tableau j \<longrightarrow> j < length (tableau st)) \<longrightarrow>
      (\<exists>st'. moveCards cards (Tableau i) dest st = Some st' \<and>
         (rest \<noteq> [] \<and> \<not> faceUp (heap st (last rest)) \<longrightarrow>
            heap st' = (heap st)(last rest := (heap st (last rest))\<lparr>faceUp := True\<rparr>)) \<and>
         (rest = [] \<or> faceUp (heap st (last rest)) \<longrightarrow> heap st' = heap st) \<and>
         (dest \<noteq> Tableau i \<longrightarrow> tableau st' ! i = rest)))"
proof (intro conjI allI impI)
  fix st' assume "moveCards cards (Tableau i) dest st = Some st'"
  then obtain st1 st2 where 1: "removeFromSource cards (Tableau i) st = Some st1"
    and 2: "addToDestination cards dest st1 = Some st2"
    and 3: "st' = checkWin (deselect st2)"
    by (auto simp: moveCards_def split: option.splits)
  have h: "heap st' = heap st1"
    using addToDestination_heap [OF 2] 3 by (simp add: checkWin_simps deselect_simps)
  have t: "dest \<noteq> Tableau i \<longrightarrow> tableau st' ! i = tableau st1 ! i"
    using addToDestination_other [OF 2] 3 by (simp add: checkWin_simps deselect_simps)
  note top = removeFromSource_top [OF 1]
  from top have "heap st1 = heap st \<or>
          (tableau st1 ! i \<noteq> [] \<and> \<not> faceUp (heap st (last (tableau st1 ! i))) \<and>
           heap st1 = (heap st)(last (tableau st1 ! i) :=
                                  (heap st (last (tableau st1 ! i)))\<lparr>faceUp := True\<rparr>))"
    by blast
  then show "heap st' = heap st \<or>
       (\<exists>a. \<not> faceUp (heap st a) \<and>
            heap st' = (heap st)(a := (heap st a)\<lparr>faceUp := True\<rparr>) \<and>
            (dest \<noteq> Tableau i \<longrightarrow> tableau st' ! i \<noteq> [] \<and> a = last (tableau st' ! i)))"
  proof
    assume "heap st1 = heap st"
    then show ?thesis using h by simp
  next
    assume a: "tableau st1 ! i \<noteq> [] \<and> \<not> faceUp (heap st (last (tableau st1 ! i))) \<and>
           heap st1 = (heap st)(last (tableau st1 ! i) :=
                                  (heap st (last (tableau st1 ! i)))\<lparr>faceUp := True\<rparr>)"
    show ?thesis
    proof (intro disjI2 exI [of _ "last (tableau st1 ! i)"] conjI impI)
      show "\<not> faceUp (heap st (last (tableau st1 ! i)))" using a by blast
      show "heap st' = (heap st)(last (tableau st1 ! i) :=
                                  (heap st (last (tableau st1 ! i)))\<lparr>faceUp := True\<rparr>)"
        using a h by simp
      show "tableau st' ! i \<noteq> []" if "dest \<noteq> Tableau i" using that a t by simp
      show "last (tableau st1 ! i) = last (tableau st' ! i)" if "dest \<noteq> Tableau i"
        using that t by simp
    qed
  qed
  show "faceUp (heap st' (last (tableau st' ! i)))"
    if "dest \<noteq> Tableau i \<and> tableau st' ! i \<noteq> []"
    using that top t h by simp
next
  assume a: "i < length (tableau st) \<and> tableau st ! i = rest @ cards \<and> cards \<noteq> [] \<and>
    (\<forall>c\<in>set rest. cid (heap st c) \<noteq> cid (heap st (hd cards))) \<and>
    (\<forall>j. dest = Tableau j \<longrightarrow> j < length (tableau st))"
  let ?h = "if rest \<noteq> [] \<and> \<not> faceUp (heap st (last rest))
            then setFaceUp (last rest) True (heap st) else heap st"
  let ?st1 = "st\<lparr>tableau := (tableau st)[i := rest], heap := ?h\<rparr>"
  have 1: "removeFromSource cards (Tableau i) st = Some ?st1"
    using a by (intro removeFromSource_run) auto
  have "\<exists>st2. addToDestination cards dest ?st1 = Some st2 \<and> heap st2 = ?h \<and>
          (dest \<noteq> Tableau i \<longrightarrow> tableau st2 ! i = rest)"
    using a by (cases dest) (auto simp: addToDestination_def)
  then obtain st2 where 2: "addToDestination cards dest ?st1 = Some st2"
    and h2: "heap st2 = ?h" and t2: "dest \<noteq> Tableau i \<longrightarrow> tableau st2 ! i = rest"
    by blast
  have "moveCards cards (Tableau i) dest st = Some (checkWin (deselect st2))"
    by (simp add: moveCards_def 1 2)
  moreover have "heap (checkWin (deselect st2)) = ?h"
    by (simp add: checkWin_simps deselect_simps h2)
  moreover have "dest \<noteq> Tableau i \<longrightarrow> tableau (checkWin (deselect st2)) ! i = rest"
    using t2 by (simp add: checkWin_simps deselect_simps)
  ultimately show "\<exists>st'. moveCards cards (Tableau i) dest st = Some st' \<and>
         (rest \<noteq> [] \<and> \<not> faceUp (heap st (last rest)) \<longrightarrow>
            heap st' = (heap st)(last rest := (heap st (last rest))\<lparr>faceUp := True\<rparr>)) \<and>
         (rest = [] \<or> faceUp (heap st (last rest)) \<longrightarrow> heap st' = heap st) \<and>
         (dest \<noteq> Tableau i \<longrightarrow> tableau st' ! i = rest)"
    by (auto simp: setFaceUp_def)
qed

theorem moveCards_autoflip_witness:
  "\<not> faceUp (heap exState 19) \<and> tableau exState ! 2 = [19] @ [43] \<and>
   (\<exists>st'. moveCards [43] (Tableau 2) (Tableau 1) exState = Some st' \<and>
          heap st' = (heap exState)(19 := (heap exState 19)\<lparr>faceUp := True\<rparr>) \<and>
          tableau st' ! 2 = [19])"
  using moveCards_autoflip [where st = exState and i = 2 and rest = "[19]" and cards = "[43]"
          and dest = "Tableau 1"]
  by (simp add: exState_def deck_table createCard_def)

section \<open>Selection logic\<close>

text \<open>
  C10. A click with the waste as its source resolves to the top card of the waste
  whatever \<open>cardId\<close> says: two such calls on one state that differ only in \<open>cardId\<close>
  give the same result, which is no change on an empty waste or a face-down top, the
  selection of the top card on a single click without a selection, and the fast path on
  the top card on a double click.
\<close>

theorem waste_click_ignores_cardId:
  "handleCardClick cardId Waste event st = handleCardClick cardId' Waste event st \<and>
   (waste st = [] \<longrightarrow> handleCardClick cardId Waste event st = Some st) \<and>
   (waste st \<noteq> [] \<and> \<not> faceUp (heap st (last (waste st))) \<longrightarrow>
      handleCardClick cardId Waste event st = Some st) \<and>
   (waste st \<noteq> [] \<and> faceUp (heap st (last (waste st))) \<and> event \<noteq> Some 2 \<and>
    selectedCards st = None \<longrightarrow>
      handleCardClick cardId Waste event st =
        Some (st\<lparr>selectedCards := Some ([last (waste st)], Waste)\<rparr>)) \<and>
   (waste st \<noteq> [] \<and> faceUp (heap st (last (waste st))) \<and> event = Some 2 \<longrightarrow>
      handleCardClick cardId Waste event st =
        (case autoMoveToFoundation (last (waste st)) Waste st of
           None \<Rightarrow> None
         | Some (True, st') \<Rightarrow> Some st'
         | Some (False, st') \<Rightarrow>
             selectOrMove (waste st) (last (waste st)) (int (length (waste st)) - 1) Waste st'))"
  by (auto simp: handleCardClick_def resolveClick_def selectOrMove_def selectCards_def split: option.splits)

theorem waste_click_ignores_cardId_witness:
  "handleCardClick ''K-spades'' Waste None exState =
     handleCardClick ''3-hearts'' Waste None exState \<and>
   handleCardClick ''K-spades'' Waste None exState =
     Some (exState\<lparr>selectedCards := Some ([2], Waste)\<rparr>)"
proof -
  note inst = waste_click_ignores_cardId [where st = exState and cardId = "''K-spades''"
          and cardId' = "''3-hearts''" and event = None]
  have "waste exState \<noteq> [] \<and> faceUp (heap exState (last (waste exState))) \<and>
        None \<noteq> Some (2::nat) \<and> selectedCards exState = None"
    by (simp add: exState_def)
  with inst have "handleCardClick ''K-spades'' Waste None exState =
        Some (exState\<lparr>selectedCards := Some ([last (waste exState)], Waste)\<rparr>)"
    by blast
  moreover have "last (waste exState) = 2" by (simp add: exState_def)
  ultimately show ?thesis using inst by simp
qed

section \<open>Game initialization\<close>

lemma forEach_append:
  "forEach body (xs @ ys) s =
     (case forEach body xs s of None \<Rightarrow> None | Some s' \<Rightarrow> forEach body ys s')"
  by (induction xs arbitrary: s) (auto split: option.splits)

lemma dealCard_step:
  "ci < length deck \<Longrightarrow>
   dealCard deck col row (ci, st) =
     Some (Suc ci,
           st\<lparr>heap := setFaceUp (deck ! ci) (row = col) (heap st),
              tableau := (tableau st)[col := tableau st ! col @ [deck ! ci]]\<rparr>)"
  by (simp add: dealCard_def Let_def)

lemma dealColumn_rows:
  "col < length (tableau st) \<Longrightarrow> ci + n \<le> length deck \<Longrightarrow>
   forEach (dealCard deck col) [0..<n] (ci, st) =
     Some (ci + n,
           st\<lparr>heap := dealtHeap deck col ci n (heap st),
              tableau := (tableau st)[col := tableau st ! col @ take n (drop ci deck)]\<rparr>)"
proof (induction n)
  case 0
  then show ?case by (simp add: dealtHeap_def)
next
  case (Suc n)
  then show ?case
    by (simp add: forEach_append dealCard_step dealtHeap_def take_Suc_conv_app_nth)
qed

lemma dealColumn_eq:
  "col < length (tableau st) \<Longrightarrow> ci + col + 1 \<le> length deck \<Longrightarrow>
   dealColumn deck col (ci, st) =
     Some (ci + col + 1,
           st\<lparr>heap := dealtHeap deck col ci (col + 1) (heap st),
              tableau := (tableau st)[col := tableau st ! col @ take (col + 1) (drop ci deck)]\<rparr>)"
  unfolding dealColumn_def using dealColumn_rows [of col st ci "col + 1" deck]
  by (simp add: add.assoc)

lemma upt7: "[0..<7] = [0, 1, 2, 3, 4, 5, 6]"
  by (simp add: upt_rec)

lemma deal_eq:
  assumes "length deck = 52"
  shows "deal hp deck =
     Some \<lparr> heap = dealtHeap deck 6 21 7 (dealtHeap deck 5 15 6 (dealtHeap deck 4 10 5
                   (dealtHeap deck 3 6 4 (dealtHeap deck 2 3 3 (dealtHeap deck 1 1 2
                   (dealtHeap deck 0 0 1 hp)))))),
            stock = drop 28 deck, waste = [], foundations = (\<lambda>k. []),
            tableau = [take 1 (drop 0 deck), take 2 (drop 1 deck), take 3 (drop 3 deck),
                       take 4 (drop 6 deck), take 5 (drop 10 deck), take 6 (drop 15 deck),
                       take 7 (drop 21 deck)],
            selectedCards = None, winAlerts = 0 \<rparr>"
  unfolding deal_def upt7 using assms
  by (simp add: dealColumn_eq) (simp add: eval_nat_numeral)

lemma dealtHeap_Suc:
  "dealtHeap deck col ci (Suc n) hp =
     setFaceUp (deck ! (ci + n)) (n = col) (dealtHeap deck col ci n hp)"
  by (simp add: dealtHeap_def)

lemma dealtHeap_cid: "cid (dealtHeap deck col ci n hp a) = cid (hp a)"
proof (induction n arbitrary: a)
  case 0
  show ?case by (simp add: dealtHeap_def)
next
  case (Suc n)
  then show ?case by (simp add: dealtHeap_Suc setFaceUp_apply)
qed

lemma dealtHeap_nth:
  "distinct deck \<Longrightarrow> ci + n \<le> length deck \<Longrightarrow> k < length deck \<Longrightarrow>
   dealtHeap deck col ci n hp (deck ! k) =
     (if ci \<le> k \<and> k < ci + n then (hp (deck ! k))\<lparr>faceUp := (k = ci + col)\<rparr>
      else hp (deck ! k))"
proof (induction n)
  case 0
  then show ?case by (auto simp: dealtHeap_def)
next
  case (Suc n)
  then show ?case
    by (auto simp: dealtHeap_Suc setFaceUp_apply nth_eq_iff_index_eq)
qed

lemma deal_faceUp:
  assumes "length deck = 52" and "distinct deck" and "k < 52"
    and "deal hp deck = Some st"
  shows "heap st (deck ! k) =
           (if k < 28 then (hp (deck ! k))\<lparr>faceUp := (k \<in> {0, 2, 5, 9, 14, 20, 27})\<rparr>
            else hp (deck ! k))"
  using assms by (auto simp: deal_eq dealtHeap_nth) (simp_all add: eval_nat_numeral)

lemma length_createDeck: "length createDeck = 52"
  by (simp add: createDeck_def VALUES_def SUITS_def)

lemma faceDown_createDeck: "\<forall>c\<in>set createDeck. \<not> faceUp c"
  by (simp add: createDeck_def VALUES_def SUITS_def createCard_def)

lemma deckArray_simps: "distinct deckArray" "set deckArray = {0..<52}" "length deckArray = 52"
  by (simp_all add: deckArray_def length_createDeck)

lemma deckHeap_faceDown: "a < 52 \<Longrightarrow> \<not> faceUp (deckHeap a)"
  using faceDown_createDeck nth_mem [of a createDeck]
  by (simp add: deckHeap_def length_createDeck)

text \<open>
  C5. For a shuffled sequence of the 52 card objects, each once and face-down as
  \<open>createDeck\<close> made them, the deal returns a state in which column \<open>i\<close> (from 0) holds
  the \<open>i + 1\<close> cards that follow the first \<open>i (i + 1) / 2\<close> of the sequence, with only
  its last card face-up; the stock holds the remaining 24 cards in their order, all
  face-down, so that its top is the last card of the sequence and the first draw takes
  it; waste and foundations are empty and nothing is selected.
\<close>

theorem deal_layout:
  assumes len: "length deck = 52" and dist: "distinct deck"
      and down: "\<forall>a\<in>set deck. \<not> faceUp (hp a)"
  shows "\<exists>st. deal hp deck = Some st \<and>
           length (tableau st) = 7 \<and>
           (\<forall>i<7. tableau st ! i = take (i + 1) (drop (i * (i + 1) div 2) deck) \<and>
                  length (tableau st ! i) = i + 1 \<and>
                  (\<forall>r\<le>i. faceUp (heap st (tableau st ! i ! r)) = (r = i))) \<and>
           stock st = drop 28 deck \<and> length (stock st) = 24 \<and>
           (\<forall>a\<in>set (stock st). \<not> faceUp (heap st a)) \<and>
           last (stock st) = last deck \<and>
           waste (drawFromStock st) = [last deck] \<and>
           waste st = [] \<and> (\<forall>k. foundations st k = []) \<and> selectedCards st = None"
proof -
  obtain st where st: "deal hp deck = Some st"
    using deal_eq [OF len] by simp
  have tab: "tableau st = [take 1 (drop 0 deck), take 2 (drop 1 deck), take 3 (drop 3 deck),
                       take 4 (drop 6 deck), take 5 (drop 10 deck), take 6 (drop 15 deck),
                       take 7 (drop 21 deck)]"
    and stk: "stock st = drop 28 deck" and wst: "waste st = []"
    and fnd: "\<forall>k. foundations st k = []" and sel: "selectedCards st = None"
    using st deal_eq [OF len, of hp] by auto
  have fu: "faceUp (heap st (deck ! k)) = (k \<in> {0, 2, 5, 9, 14, 20, 27})" if "k < 52" for k
  proof -
    have "deck ! k \<in> set deck" using that len by simp
    then have "\<not> faceUp (hp (deck ! k))" using down by blast
    then show ?thesis
      using deal_faceUp [OF len dist that st] by auto
  qed
  have cols: "tableau st ! i = take (i + 1) (drop (i * (i + 1) div 2) deck) \<and>
              length (tableau st ! i) = i + 1 \<and>
              (\<forall>r\<le>i. faceUp (heap st (tableau st ! i ! r)) = (r = i))" if "i < 7" for i
  proof -
    from that consider "i = 0" | "i = 1" | "i = 2" | "i = 3" | "i = 4" | "i = 5" | "i = 6"
      by arith
    then show ?thesis
    proof cases
      case 1 then show ?thesis using fu [of 0] by (simp add: tab len)
    next
      case 2 then show ?thesis by (auto simp: tab len fu) (simp add: numeral_2_eq_2)
    next
      case 3 then show ?thesis by (auto simp: tab len fu)
    next
      case 4 then show ?thesis by (auto simp: tab len fu)
    next
      case 5 then show ?thesis by (auto simp: tab len fu)
    next
      case 6 then show ?thesis by (auto simp: tab len fu)
    next
      case 7 then show ?thesis by (auto simp: tab len fu)
    qed
  qed
  have stock_down: "\<not> faceUp (heap st a)" if "a \<in> set (stock st)" for a
  proof -
    from that obtain m where m: "m < 24" and a: "a = deck ! (28 + m)"
      by (auto simp: stk in_set_conv_nth len)
    then show ?thesis using fu [of "28 + m"] by simp
  qed
  have lst: "last (stock st) = last deck"
    by (simp add: stk len)
  have drw: "waste (drawFromStock st) = [last deck]"
    using lst by (simp add: drawFromStock_def deselect_def Let_def wst stk len)
  show ?thesis
  proof (intro exI conjI)
    show "deal hp deck = Some st" by (rule st)
    show "length (tableau st) = 7" by (simp add: tab)
    show "\<forall>i<7. tableau st ! i = take (i + 1) (drop (i * (i + 1) div 2) deck) \<and>
                  length (tableau st ! i) = i + 1 \<and>
                  (\<forall>r\<le>i. faceUp (heap st (tableau st ! i ! r)) = (r = i))"
      using cols by blast
    show "stock st = drop 28 deck" by (rule stk)
    show "length (stock st) = 24" by (simp add: stk len)
    show "\<forall>a\<in>set (stock st). \<not> faceUp (heap st a)" using stock_down by blast
    show "last (stock st) = last deck" by (rule lst)
    show "waste (drawFromStock st) = [last deck]" by (rule drw)
    show "waste st = []" by (rule wst)
    show "\<forall>k. foundations st k = []" by (rule fnd)
    show "selectedCards st = None" by (rule sel)
  qed
qed

theorem deal_layout_witness:
  "length deckArray = 52 \<and> distinct deckArray \<and>
   (\<exists>st. deal deckHeap deckArray = Some st \<and>
         tableau st ! 2 = [3, 4, 5] \<and>
         faceUp (heap st 5) \<and> \<not> faceUp (heap st 4) \<and>
         last (stock st) = 51 \<and> waste (drawFromStock st) = [51])"
proof -
  have len: "length deckArray = 52" and dist: "distinct deckArray"
    by (simp_all add: deckArray_simps)
  have down: "\<forall>a\<in>set deckArray. \<not> faceUp (deckHeap a)"
    by (simp add: deckArray_simps deckHeap_faceDown)
  from deal_layout [OF len dist down] obtain st where
    st: "deal deckHeap deckArray = Some st"
    and cols: "\<forall>i<7. tableau st ! i = take (i + 1) (drop (i * (i + 1) div 2) deckArray) \<and>
                  length (tableau st ! i) = i + 1 \<and>
                  (\<forall>r\<le>i. faceUp (heap st (tableau st ! i ! r)) = (r = i))"
    and top: "last (stock st) = last deckArray"
    and drw: "waste (drawFromStock st) = [last deckArray]"
    by (elim exE conjE)
  have l: "last deckArray = 51"
    by (simp add: deckArray_def length_createDeck)
  have "take 3 (drop 3 deckArray) = [3, 4, 5]"
    by (simp add: deckArray_def length_createDeck upt_rec)
  moreover have "(2::nat) < 7" by simp
  with cols have c2: "tableau st ! 2 = take (2 + 1) (drop (2 * (2 + 1) div 2) deckArray) \<and>
                  length (tableau st ! 2) = 2 + 1 \<and>
                  (\<forall>r\<le>2. faceUp (heap st (tableau st ! 2 ! r)) = (r = 2))"
    by blast
  ultimately have t2: "tableau st ! 2 = [3, 4, 5]" by simp
  from c2 have fl: "\<forall>r\<le>2. faceUp (heap st (tableau st ! 2 ! r)) = (r = 2)" by blast
  have "faceUp (heap st 5)"
    using fl [rule_format, of 2] by (simp add: t2)
  moreover have "\<not> faceUp (heap st 4)"
    using fl [rule_format, of 1] by (simp add: t2)
  ultimately have "faceUp (heap st 5)" and "\<not> faceUp (heap st 4)" .
  with st t2 top drw l len dist show ?thesis by simp
qed

section \<open>Conservation of the cards\<close>

lemma distinct_cid_createDeck: "distinct (map cid createDeck)"
  by (simp add: createDeck_def VALUES_def SUITS_def createCard_def)

lemma deckHeap_cid_inj:
  "a < 52 \<Longrightarrow> b < 52 \<Longrightarrow> cid (deckHeap a) = cid (deckHeap b) \<Longrightarrow> a = b"
  using distinct_cid_createDeck
  by (simp add: deckHeap_def distinct_conv_nth length_createDeck) blast

lemma map_cid_deckHeap: "map (\<lambda>a. cid (deckHeap a)) deckArray = map cid createDeck"
  by (rule nth_equalityI) (simp_all add: deckArray_def deckHeap_def)

lemma mset_boardCards:
  "mset (boardCards st) =
     mset (stock st) + mset (waste st) + foundCards (foundations st) +
     mset (concat (tableau st))"
  by (simp add: boardCards_def foundCards_def)

lemma foundCards_update:
  "foundCards (f(k := ys)) + mset (f k) = foundCards f + mset ys"
  by (cases k) (simp_all add: foundCards_def)

lemma mset_concat_update:
  "i < length xss \<Longrightarrow>
   mset (concat (xss[i := ys])) + mset (xss ! i) = mset (concat xss) + mset ys"
  by (induction xss arbitrary: i) (auto split: nat.splits)

lemma boardInv_distinct:
  assumes "boardInv st"
  shows "distinct (boardCards st)" and "set (boardCards st) = {0..<52}"
proof -
  have m: "mset (boardCards st) = mset deckArray" using assms by (simp add: boardInv_def)
  show "distinct (boardCards st)"
    using mset_eq_imp_distinct_iff [OF m] by (simp add: deckArray_simps)
  show "set (boardCards st) = {0..<52}"
    using mset_eq_setD [OF m] by (simp add: deckArray_simps)
qed

lemma boardInv_partitioned:
  assumes "boardInv st"
  shows "partitioned st"
proof -
  have m: "mset (boardCards st) = mset deckArray"
    and h: "\<forall>a. cid (heap st a) = cid (deckHeap a)"
    using assms by (simp_all add: boardInv_def)
  have "map (\<lambda>a. cid (heap st a)) (boardCards st) = map (\<lambda>a. cid (deckHeap a)) (boardCards st)"
    using h by simp
  then have "mset (map (\<lambda>a. cid (heap st a)) (boardCards st)) =
        image_mset (\<lambda>a. cid (deckHeap a)) (mset (boardCards st))"
    by (simp only: mset_map)
  also have "\<dots> = mset (map (\<lambda>a. cid (deckHeap a)) deckArray)"
    by (simp only: m mset_map)
  finally have ids: "mset (map (\<lambda>a. cid (heap st a)) (boardCards st)) = mset (map cid createDeck)"
    by (simp only: map_cid_deckHeap)
  have "distinct (map (\<lambda>a. cid (heap st a)) (boardCards st))"
    using mset_eq_imp_distinct_iff [OF ids] distinct_cid_createDeck by simp
  moreover have "set (map (\<lambda>a. cid (heap st a)) (boardCards st)) = set (map cid createDeck)"
    using mset_eq_setD [OF ids] .
  moreover have "length (boardCards st) = 52"
    using mset_eq_length [OF m] by (simp add: deckArray_simps)
  ultimately show ?thesis by (simp add: partitioned_def)
qed

lemma draw_board: "mset (boardCards (drawFromStock st)) = mset (boardCards st)"
proof (cases "stock st = []")
  case True
  then show ?thesis
    by (simp add: drawFromStock_def deselect_def Let_def mset_boardCards)
next
  case False
  then have "stock st = butlast (stock st) @ [last (stock st)]" by simp
  then have "mset (stock st) = mset (butlast (stock st)) + {#last (stock st)#}"
    by (metis mset_append mset.simps(1) mset.simps(2) add_mset_add_single)
  with False show ?thesis
    by (simp add: drawFromStock_def deselect_def Let_def mset_boardCards)
qed

lemma draw_cid: "cid (heap (drawFromStock st) a) = cid (heap st a)"
  by (simp add: drawFromStock_def deselect_def Let_def fold_setFaceUp setFaceUp_apply)

lemma draw_frame:
  "tableau (drawFromStock st) = tableau st" "selectedCards (drawFromStock st) = None"
  by (simp_all add: drawFromStock_def deselect_def Let_def)

lemma boardInv_draw: "boardInv st \<Longrightarrow> boardInv (drawFromStock st)"
  by (simp add: boardInv_def draw_board draw_cid draw_frame)

lemma mset_butlast: "xs \<noteq> [] \<Longrightarrow> mset (butlast xs) + {#last xs#} = mset xs"
proof -
  assume "xs \<noteq> []"
  then have "xs = butlast xs @ [last xs]" by simp
  then have "mset xs = mset (butlast xs @ [last xs])" by simp
  then show ?thesis by simp
qed

lemma pile_cids_differ:
  assumes inv: "boardInv st" and i: "i < length (tableau st)"
      and pile: "tableau st ! i = pre @ c0 # cs"
  shows "\<forall>c\<in>set pre. cid (heap st c) \<noteq> cid (heap st c0)"
proof
  fix c assume c: "c \<in> set pre"
  have "tableau st ! i \<in> set (tableau st)" using i by simp
  then have sub: "set (tableau st ! i) \<subseteq> set (boardCards st)"
    by (auto simp: boardCards_def)
  have "distinct (concat (tableau st))"
    using boardInv_distinct(1) [OF inv] by (simp add: boardCards_def)
  then have "distinct (tableau st ! i)"
    using i by (simp add: distinct_concat_iff)
  then have ne: "c \<noteq> c0" using c pile by auto
  have "c < 52" "c0 < 52"
    using sub c pile boardInv_distinct(2) [OF inv] by auto
  then have "cid (deckHeap c) \<noteq> cid (deckHeap c0)"
    using ne deckHeap_cid_inj by blast
  then show "cid (heap st c) \<noteq> cid (heap st c0)"
    using inv by (simp add: boardInv_def)
qed

lemma mset_take_out:
  fixes X Y B C M :: "'a multiset"
  shows "X + M = Y + B \<Longrightarrow> B + C = M \<Longrightarrow> X + C = Y"
proof -
  assume 1: "X + M = Y + B" and 2: "B + C = M"
  have "X + (B + C) = Y + B" using 1 unfolding 2 .
  then show "X + C = Y" by simp
qed

lemma mset_put_in:
  fixes X Y B C :: "'a multiset"
  shows "X + B = Y + (B + C) \<Longrightarrow> X = Y + C"
  by simp

lemma remove_waste:
  assumes "waste st \<noteq> []"
  shows "add_mset (last (waste st)) (mset (boardCards (st\<lparr>waste := butlast (waste st)\<rparr>))) =
         mset (boardCards st)"
  using mset_butlast [OF assms, symmetric] by (simp add: mset_boardCards)

lemma remove_foundation:
  assumes "foundations st k \<noteq> []"
  shows "add_mset (last (foundations st k))
           (mset (boardCards (st\<lparr>foundations := (foundations st)(k := butlast (foundations st k))\<rparr>)))
         = mset (boardCards st)"
proof -
  have "foundCards ((foundations st)(k := butlast (foundations st k))) + {#last (foundations st k)#}
        = foundCards (foundations st)"
    by (rule mset_take_out
          [OF foundCards_update [of "foundations st" k "butlast (foundations st k)"]
              mset_butlast [OF assms]])
  then show ?thesis
    by (simp add: mset_boardCards flip: add_mset_add_single)
qed

lemma remove_tableau:
  assumes i: "i < length (tableau st)" and pile: "tableau st ! i = pre @ cards"
  shows "mset (boardCards (st\<lparr>tableau := (tableau st)[i := pre], heap := hp\<rparr>)) + mset cards =
         mset (boardCards st)"
proof -
  have "mset (concat ((tableau st)[i := pre])) + mset (pre @ cards) =
        mset (concat (tableau st)) + mset pre"
    using mset_concat_update [OF i, of pre] pile by simp
  then have "mset (concat ((tableau st)[i := pre])) + mset cards = mset (concat (tableau st))"
    by simp
  then show ?thesis
    by (simp add: mset_boardCards flip: add.assoc)
qed

lemma removeFromSource_board:
  assumes inv: "boardInv st" and mv: "movable st cards source"
  shows "\<exists>st1. removeFromSource cards source st = Some st1 \<and>
           mset (boardCards st1) + mset cards = mset (boardCards st) \<and>
           length (tableau st1) = length (tableau st) \<and>
           (\<forall>a. cid (heap st1 a) = cid (heap st a))"
proof (cases source)
  case Waste
  then have ne: "waste st \<noteq> []" and cards: "cards = [last (waste st)]"
    using mv by (simp_all add: movable_def)
  show ?thesis
    by (simp add: Waste cards removeFromSource_def remove_waste [OF ne])
next
  case (Foundation k)
  then have ne: "foundations st k \<noteq> []" and cards: "cards = [last (foundations st k)]"
    using mv by (simp_all add: movable_def)
  show ?thesis
    by (simp add: Foundation cards removeFromSource_def remove_foundation [OF ne])
next
  case (Tableau i)
  then obtain pre where i: "i < length (tableau st)" and ne: "cards \<noteq> []"
    and pile: "tableau st ! i = pre @ cards"
    using mv by (auto simp: movable_def)
  obtain c0 cs where cards: "cards = c0 # cs" using ne by (cases cards) auto
  have diff: "\<forall>c\<in>set pre. cid (heap st c) \<noteq> cid (heap st (hd cards))"
    using pile_cids_differ [OF inv i] pile cards by simp
  show ?thesis
    unfolding Tableau removeFromSource_run [OF i pile ne diff]
    by (simp add: remove_tableau [OF i pile] setFaceUp_apply)
qed

lemma add_foundation:
  "mset (boardCards (st\<lparr>foundations := (foundations st)(k := foundations st k @ cards)\<rparr>)) =
   mset (boardCards st) + mset cards"
proof -
  have "foundCards ((foundations st)(k := foundations st k @ cards)) + mset (foundations st k) =
        foundCards (foundations st) + (mset (foundations st k) + mset cards)"
    using foundCards_update [of "foundations st" k "foundations st k @ cards"]
    by (simp only: mset_append)
  then have "foundCards ((foundations st)(k := foundations st k @ cards)) =
        foundCards (foundations st) + mset cards"
    by (rule mset_put_in)
  then show ?thesis
    by (simp add: mset_boardCards)
qed

lemma add_tableau:
  assumes j: "j < length (tableau st)"
  shows "mset (boardCards (st\<lparr>tableau := (tableau st)[j := tableau st ! j @ cards]\<rparr>)) =
         mset (boardCards st) + mset cards"
proof -
  have "mset (concat ((tableau st)[j := tableau st ! j @ cards])) + mset (tableau st ! j) =
        mset (concat (tableau st)) + (mset (tableau st ! j) + mset cards)"
    using mset_concat_update [OF j, of "tableau st ! j @ cards"]
    by (simp only: mset_append)
  then have "mset (concat ((tableau st)[j := tableau st ! j @ cards])) =
        mset (concat (tableau st)) + mset cards"
    by (rule mset_put_in)
  then show ?thesis
    by (simp add: mset_boardCards)
qed

lemma addToDestination_board:
  assumes "addToDestination cards destination st1 = Some st2" and "destination \<noteq> Waste"
  shows "mset (boardCards st2) = mset (boardCards st1) + mset cards \<and>
         length (tableau st2) = length (tableau st1) \<and> heap st2 = heap st1"
proof (cases destination)
  case Waste
  with assms show ?thesis by simp
next
  case (Foundation k)
  with assms have "st2 = st1\<lparr>foundations := (foundations st1)(k := foundations st1 k @ cards)\<rparr>"
    by (simp add: addToDestination_def)
  then show ?thesis
    by (simp add: add_foundation)
next
  case (Tableau j)
  with assms have j: "j < length (tableau st1)"
    and st2: "st2 = st1\<lparr>tableau := (tableau st1)[j := tableau st1 ! j @ cards]\<rparr>"
    by (auto simp: addToDestination_def split: if_splits)
  show ?thesis
    by (simp add: st2 add_tableau [OF j])
qed

lemma board_deselect_checkWin:
  "boardCards (checkWin (deselect st)) = boardCards st"
  by (simp add: boardCards_def checkWin_simps deselect_simps)

lemma moveCards_board:
  assumes inv: "boardInv st" and mv: "movable st cards source"
      and dest: "destination \<noteq> Waste"
      and res: "moveCards cards source destination st = Some st'"
  shows "boardInv st'"
proof -
  obtain st1 where 1: "removeFromSource cards source st = Some st1"
    and m1: "mset (boardCards st1) + mset cards = mset (boardCards st)"
    and l1: "length (tableau st1) = length (tableau st)"
    and c1: "\<forall>a. cid (heap st1 a) = cid (heap st a)"
    using removeFromSource_board [OF inv mv] by blast
  obtain st2 where 2: "addToDestination cards destination st1 = Some st2"
    and st': "st' = checkWin (deselect st2)"
    using res by (auto simp: moveCards_def 1 split: option.splits)
  have m2: "mset (boardCards st2) = mset (boardCards st1) + mset cards"
    and l2: "length (tableau st2) = length (tableau st1)" and h2: "heap st2 = heap st1"
    using addToDestination_board [OF 2 dest] by simp_all
  have "mset (boardCards st') = mset (boardCards st)"
    by (simp only: st' board_deselect_checkWin m2 m1)
  moreover have "length (tableau st') = 7"
    using inv by (simp add: st' checkWin_simps deselect_simps l2 l1 boardInv_def)
  moreover have "\<forall>a. cid (heap st' a) = cid (deckHeap a)"
    using inv c1 by (simp add: st' checkWin_simps deselect_simps h2 boardInv_def)
  moreover have "selectedCards st' = None"
    by (simp add: st' checkWin_simps deselect_simps)
  ultimately show ?thesis
    using inv by (simp add: boardInv_def)
qed

lemma findIndex_range:
  "findIndex P xs = - 1 \<or> (0 \<le> findIndex P xs \<and> findIndex P xs < int (length xs))"
  by (induction xs) (auto simp: Let_def)

lemma movable_frame:
  "waste st' = waste st \<Longrightarrow> foundations st' = foundations st \<Longrightarrow> tableau st' = tableau st \<Longrightarrow>
   movable st' cards source = movable st cards source"
  by (cases source) (simp_all add: movable_def)

lemma boardInv_deselect: "boardInv st \<Longrightarrow> boardInv (deselect st)"
  by (simp add: boardInv_def boardCards_def deselect_simps)

lemma boardInv_selectCards:
  "boardInv st \<Longrightarrow> movable st cards source \<Longrightarrow> boardInv (selectCards cards source st)"
  using movable_frame [of "selectCards cards source st" st cards source]
  by (simp add: boardInv_def boardCards_def selectCards_def)

lemma boardInv_attemptMove:
  assumes inv: "boardInv st" and res: "attemptMove destination st = Some (r, st')"
  shows "boardInv st'"
proof (cases "selectedCards st")
  case None
  with res inv show ?thesis by (simp add: attemptMove_def)
next
  case (Some sel)
  obtain cards source where sel: "sel = (cards, source)" by (cases sel)
  have mv: "movable st cards source"
    using inv Some sel by (simp add: boardInv_def)
  show ?thesis
  proof (cases destination)
    case Waste
    with res Some sel have "st' = deselect st" by (simp add: attemptMove_def)
    then show ?thesis using inv by (simp add: boardInv_deselect)
  next
    case (Foundation k)
    with res Some sel
    have "st' = deselect st \<or> moveCards cards source (Foundation k) st = Some st'"
      by (auto simp: attemptMove_def split: if_splits option.splits)
    then show ?thesis
      using inv mv moveCards_board [of st cards source "Foundation k" st']
      by (auto simp: boardInv_deselect)
  next
    case (Tableau j)
    with res Some sel
    have "st' = deselect st \<or> moveCards cards source (Tableau j) st = Some st'"
      by (auto simp: attemptMove_def split: if_splits option.splits bool.splits)
    then show ?thesis
      using inv mv moveCards_board [of st cards source "Tableau j" st']
      by (auto simp: boardInv_deselect)
  qed
qed

lemma boardInv_autoMove:
  assumes inv: "boardInv st" and mv: "movable st [crd] source"
      and res: "autoMoveToFoundation crd source st = Some (b, st')"
  shows "boardInv st' \<and> (\<not> b \<longrightarrow> st' = st)"
proof -
  from res have "(\<not> b \<and> st' = st) \<or>
      (b \<and> moveCards [crd] source (Foundation (getSuitShort (suit (heap st crd)))) st = Some st')"
    by (auto simp: autoMoveToFoundation_def Let_def split: if_splits option.splits)
  then show ?thesis
    using inv mv moveCards_board [of st "[crd]" source _ st'] by auto
qed

lemma boardInv_selectOrMove:
  assumes inv: "boardInv st"
      and mv: "movable st (case source of Tableau _ \<Rightarrow> drop (nat cardIndex) pile | _ \<Rightarrow> [crd]) source"
      and res: "selectOrMove pile crd cardIndex source st = Some st'"
  shows "boardInv st'"
proof (cases "selectedCards st")
  case None
  with res have "st' = selectCards (case source of Tableau _ \<Rightarrow> drop (nat cardIndex) pile | _ \<Rightarrow> [crd]) source st"
    by (simp add: selectOrMove_def Let_def)
  then show ?thesis using inv mv by (simp add: boardInv_selectCards)
next
  case (Some sel)
  with res have "st' = deselect st \<or> (\<exists>dest r. attemptMove dest st = Some (r, st'))"
    by (cases source) (auto simp: selectOrMove_def)
  then show ?thesis
    using inv boardInv_attemptMove boardInv_deselect by blast
qed

lemma resolveClick_movable:
  assumes "resolveClick cardId source st = Some (pile, Some crd, cardIndex)"
  shows "movable st (case source of Tableau _ \<Rightarrow> drop (nat cardIndex) pile | _ \<Rightarrow> [crd]) source \<and>
         (case source of Tableau _ \<Rightarrow> hd (drop (nat cardIndex) pile) = crd | _ \<Rightarrow> True)"
proof (cases source)
  case Waste
  with assms show ?thesis
    by (auto simp: resolveClick_def movable_def split: if_splits)
next
  case (Foundation k)
  with assms show ?thesis
    by (auto simp: resolveClick_def movable_def Let_def split: if_splits)
next
  case (Tableau i)
  let ?P = "\<lambda>c. cid (heap st c) = cardId"
  from assms Tableau have i: "i < length (tableau st)" and pile: "pile = tableau st ! i"
    and ci: "cardIndex = findIndex ?P pile" and nonneg: "\<not> cardIndex < 0"
    and crd: "crd = pile ! nat cardIndex"
    by (auto simp: resolveClick_def Let_def split: if_splits)
  have lt: "nat cardIndex < length pile"
    using findIndex_range [of ?P pile] ci nonneg by auto
  have "pile = take (nat cardIndex) pile @ drop (nat cardIndex) pile" by simp
  then have "\<exists>pre. tableau st ! i = pre @ drop (nat cardIndex) pile"
    using pile by metis
  moreover have "drop (nat cardIndex) pile \<noteq> []" using lt by simp
  moreover have "hd (drop (nat cardIndex) pile) = crd"
    using lt crd by (simp add: hd_drop_conv_nth)
  ultimately show ?thesis
    using i by (simp add: Tableau movable_def)
qed

lemma boardInv_click:
  assumes inv: "boardInv st" and res: "handleCardClick cardId source event st = Some st'"
  shows "boardInv st'"
proof (cases "resolveClick cardId source st")
  case None
  with res show ?thesis by (simp add: handleCardClick_def)
next
  case (Some t)
  obtain pile co cardIndex where t: "t = (pile, co, cardIndex)" by (cases t)
  show ?thesis
  proof (cases co)
    case None
    with res Some t inv show ?thesis by (simp add: handleCardClick_def)
  next
    case (Some crd)
    note rc = \<open>resolveClick cardId source st = Some t\<close> [unfolded t Some]
    let ?run = "case source of Tableau _ \<Rightarrow> drop (nat cardIndex) pile | _ \<Rightarrow> [crd]"
    have mv: "movable st ?run source"
      and hd: "case source of Tableau _ \<Rightarrow> hd (drop (nat cardIndex) pile) = crd | _ \<Rightarrow> True"
      using resolveClick_movable [OF rc] by simp_all
    have one: "length ?run = 1 \<Longrightarrow> ?run = [crd]"
      using hd by (cases source; cases "drop (nat cardIndex) pile") auto
    let ?fast = "event = Some 2 \<and> (case source of Foundation _ \<Rightarrow> False | _ \<Rightarrow> True) \<and>
                 length ?run = 1"
    have eq: "handleCardClick cardId source event st =
        (if \<not> faceUp (heap st crd) then Some st
         else if ?fast
         then (case autoMoveToFoundation crd source st of
                 None \<Rightarrow> None
               | Some (True, st1) \<Rightarrow> Some st1
               | Some (False, st1) \<Rightarrow> selectOrMove pile crd cardIndex source st1)
         else selectOrMove pile crd cardIndex source st)"
      by (simp add: handleCardClick_def rc)
    show ?thesis
    proof (cases "faceUp (heap st crd)")
      case False
      with res eq inv show ?thesis by simp
    next
      case True
      note up = True
      show ?thesis
      proof (cases ?fast)
        case False
        with res eq up have "selectOrMove pile crd cardIndex source st = Some st'"
          by (simp only: if_False if_True simp_thms)
        then show ?thesis using boardInv_selectOrMove [OF inv mv] by simp
      next
        case True
        then have run: "?run = [crd]" using one by blast
        from res eq up True
        have r: "(case autoMoveToFoundation crd source st of
                 None \<Rightarrow> None
               | Some (True, st1) \<Rightarrow> Some st1
               | Some (False, st1) \<Rightarrow> selectOrMove pile crd cardIndex source st1) = Some st'"
          by (simp only: if_False if_True simp_thms)
        then obtain b st1 where am: "autoMoveToFoundation crd source st = Some (b, st1)"
          by (cases "autoMoveToFoundation crd source st") auto
        have mv1: "movable st [crd] source" using mv run by simp
        have inv1: "boardInv st1" and same: "\<not> b \<longrightarrow> st1 = st"
          using boardInv_autoMove [OF inv mv1 am] by simp_all
        show ?thesis
        proof (cases b)
          case True
          with r am have "st' = st1" by simp
          then show ?thesis using inv1 by simp
        next
          case False
          with r am same have "selectOrMove pile crd cardIndex source st = Some st'" by simp
          then show ?thesis using boardInv_selectOrMove [OF inv mv] by simp
        qed
      qed
    qed
  qed
qed

lemma boardInv_slot:
  assumes inv: "boardInv st" and res: "handleEmptySlotClick slot st = Some st'"
  shows "boardInv st'"
proof -
  from res have "st' = st \<or> (\<exists>r. attemptMove slot st = Some (r, st'))"
    by (auto simp: handleEmptySlotClick_def split: option.splits)
  then show ?thesis using inv boardInv_attemptMove by blast
qed

lemma shuffleLoop_perm:
  "\<forall>i. rnd i \<le> i \<Longrightarrow> k < length xs \<Longrightarrow>
   mset (shuffleLoop rnd k xs) = mset xs"
proof (induction k arbitrary: xs)
  case 0
  then show ?case by simp
next
  case (Suc k)
  let ?ys = "xs[Suc k := xs ! rnd (Suc k), rnd (Suc k) := xs ! Suc k]"
  have j: "rnd (Suc k) < length xs"
    using Suc.prems by (meson le_less_trans)
  have "mset ?ys = mset xs"
    using mset_swap [of "rnd (Suc k)" xs "Suc k"] j Suc.prems(2) by simp
  moreover have "mset (shuffleLoop rnd k ?ys) = mset ?ys"
    using Suc.IH [of ?ys] Suc.prems by simp
  ultimately show ?case by (simp add: Let_def)
qed

lemma shuffleDeck_perm:
  assumes "\<forall>i. rnd i \<le> i"
  shows "mset (shuffleDeck rnd deck) = mset deck"
proof (cases deck)
  case Nil
  then show ?thesis by (simp add: shuffleDeck_def)
next
  case (Cons x xs)
  then show ?thesis
    using shuffleLoop_perm [OF assms, of "length deck - 1" deck]
    by (simp add: shuffleDeck_def)
qed

lemma takes28:
  "take 1 (drop 0 d) @ take 2 (drop 1 d) @ take 3 (drop 3 d) @ take 4 (drop 6 d) @
   take 5 (drop 10 d) @ take 6 (drop 15 d) @ take 7 (drop 21 d) = take 28 (d :: 'a list)"
proof -
  have "take 28 d = take 21 d @ take 7 (drop 21 d)" using take_add [of 21 7 d] by simp
  moreover have "take 21 d = take 15 d @ take 6 (drop 15 d)" using take_add [of 15 6 d] by simp
  moreover have "take 15 d = take 10 d @ take 5 (drop 10 d)" using take_add [of 10 5 d] by simp
  moreover have "take 10 d = take 6 d @ take 4 (drop 6 d)" using take_add [of 6 4 d] by simp
  moreover have "take 6 d = take 3 d @ take 3 (drop 3 d)" using take_add [of 3 3 d] by simp
  moreover have "take 3 d = take 1 d @ take 2 (drop 1 d)" using take_add [of 1 2 d] by (simp add: numeral_3_eq_3)
  ultimately show ?thesis by (simp only: append_assoc drop_0)
qed

lemma deal_board:
  assumes len: "length deck = 52" and res: "deal hp deck = Some st"
  shows "mset (boardCards st) = mset deck" and "length (tableau st) = 7"
    and "selectedCards st = None" and "cid (heap st a) = cid (hp a)"
proof -
  note eq = res [unfolded deal_eq [OF len], simplified]
  have "boardCards st = drop 28 deck @ take 28 deck"
    using takes28 [of deck] by (simp add: eq [symmetric] boardCards_def)
  then have "mset (boardCards st) = mset (take 28 deck @ drop 28 deck)"
    by (simp only: mset_append add.commute)
  then show "mset (boardCards st) = mset deck" by simp
  show "length (tableau st) = 7" "selectedCards st = None"
    by (simp_all add: eq [symmetric])
  show "cid (heap st a) = cid (hp a)"
    by (simp add: eq [symmetric] dealtHeap_cid)
qed

lemma boardInv_init:
  assumes rnd: "\<forall>i. rnd i \<le> i" and res: "initGame rnd = Some st"
  shows "boardInv st"
proof -
  let ?deck = "shuffleDeck rnd deckArray"
  have m: "mset ?deck = mset deckArray"
    by (rule shuffleDeck_perm [OF rnd])
  have len: "length ?deck = 52"
    using mset_eq_length [OF m] by (simp add: deckArray_simps)
  have d: "deal deckHeap ?deck = Some st"
    using res by (simp add: initGame_def)
  show ?thesis
    using deal_board [OF len d] m by (simp add: boardInv_def)
qed

lemma initGame_returns:
  assumes rnd: "\<forall>i. rnd i \<le> i"
  shows "\<exists>st. initGame rnd = Some st"
proof -
  let ?deck = "shuffleDeck rnd deckArray"
  have m: "mset ?deck = mset deckArray"
    by (rule shuffleDeck_perm [OF rnd])
  have len: "length ?deck = 52"
    using mset_eq_length [OF m] by (simp add: deckArray_simps)
  show ?thesis
    by (simp add: initGame_def deal_eq [OF len])
qed

lemma reachable_boardInv: "reachable st \<Longrightarrow> boardInv st"
proof (induction rule: reachable.induct)
  case (r_init rnd st)
  then show ?case by (rule boardInv_init)
next
  case (r_draw st)
  then show ?case by (simp add: boardInv_draw)
next
  case (r_card st cardId source event st')
  then show ?case using boardInv_click by blast
next
  case (r_slot st slot st')
  then show ?case using boardInv_slot by blast
next
  case (r_move st destination r st')
  then show ?case using boardInv_attemptMove by blast
next
  case (r_deselect st)
  then show ?case by (simp add: boardInv_deselect)
qed

text \<open>
  C1. In every state reached from \<open>initGame\<close> by stock draws, card clicks, empty-slot
  clicks, move attempts and deselection, the 52 card identities are partitioned across
  stock, waste, the four foundations and the seven tableau columns: the ids on the board
  are pairwise different and are exactly the ids of the deck. \<open>moveCards\<close> runs only
  inside \<open>attemptMove\<close> and the double-click fast path, on the run they took from the
  selection or from the clicked card.
\<close>

theorem cards_partitioned: "reachable st \<Longrightarrow> partitioned st"
  by (rule boardInv_partitioned [OF reachable_boardInv])

theorem cards_partitioned_witness:
  "\<exists>st. initGame (\<lambda>i. i) = Some st \<and> reachable (drawFromStock st) \<and>
        partitioned (drawFromStock st)"
proof -
  have rnd: "\<forall>i::nat. (\<lambda>i. i) i \<le> i" by simp
  obtain st where st: "initGame (\<lambda>i. i) = Some st"
    using initGame_returns [OF rnd] ..
  have "reachable (drawFromStock st)"
    by (rule r_draw [OF r_init [OF rnd st]])
  then show ?thesis
    using st cards_partitioned [of "drawFromStock st"] by blast
qed

section \<open>Win detection\<close>

lemma checkWin_alerts:
  "winAlerts (checkWin st) = (if foundationTotal st = 52 then winAlerts st + 1 else winAlerts st)"
  by (simp add: checkWin_def foundationTotal_def Let_def)

lemma foundationTotal_checkWin: "foundationTotal (checkWin st) = foundationTotal st"
  by (simp add: foundationTotal_def checkWin_simps)

lemma removeFromSource_alerts: "removeFromSource cards src st = Some st1 \<Longrightarrow> winAlerts st1 = winAlerts st"
  by (auto simp: removeFromSource_def Let_def split: pile_ref.splits if_splits list.splits)

lemma addToDestination_alerts: "addToDestination cards dest st = Some st2 \<Longrightarrow> winAlerts st2 = winAlerts st"
  by (auto simp: addToDestination_def split: pile_ref.splits if_splits)

text \<open>
  C2, as the code has it. \<open>checkWin\<close> keeps no record of an earlier signal: every check
  on a state whose four foundation piles hold 52 cards in total schedules one more alert,
  and a check on any other state schedules none. So every \<open>moveCards\<close> that returns
  leaves the alert count one higher if the foundations hold 52 cards afterwards, and
  unchanged otherwise.
\<close>

theorem win_signal_unguarded:
  "winAlerts (checkWin st) =
     (if foundationTotal st = 52 then winAlerts st + 1 else winAlerts st) \<and>
   (\<forall>st'. moveCards cards src dest st = Some st' \<longrightarrow>
      winAlerts st' =
        (if foundationTotal st' = 52 then winAlerts st + 1 else winAlerts st))"
proof (intro conjI allI impI)
  show "winAlerts (checkWin st) =
     (if foundationTotal st = 52 then winAlerts st + 1 else winAlerts st)"
    by (rule checkWin_alerts)
next
  fix st' assume "moveCards cards src dest st = Some st'"
  then obtain st1 st2 where 1: "removeFromSource cards src st = Some st1"
    and 2: "addToDestination cards dest st1 = Some st2"
    and 3: "st' = checkWin (deselect st2)"
    by (auto simp: moveCards_def split: option.splits)
  have "winAlerts (deselect st2) = winAlerts st"
    using removeFromSource_alerts [OF 1] addToDestination_alerts [OF 2]
    by (simp add: deselect_simps)
  moreover have "foundationTotal st' = foundationTotal (deselect st2)"
    by (simp add: 3 foundationTotal_checkWin)
  ultimately show "winAlerts st' =
        (if foundationTotal st' = 52 then winAlerts st + 1 else winAlerts st)"
    by (simp add: 3 checkWin_alerts)
qed

theorem win_signal_unguarded_witness:
  "foundationTotal wonState = 52 \<and> winAlerts (checkWin wonState) = 2 \<and>
   foundationTotal exState = 2 \<and> winAlerts (checkWin exState) = 0 \<and>
   (\<exists>st'. moveCards [2] Waste (Foundation Kh) exState = Some st' \<and>
          foundationTotal st' = 3 \<and> winAlerts st' = 0)"
proof -
  have w: "foundationTotal wonState = 52" "winAlerts wonState = 1"
    by (simp_all add: wonState_def foundationTotal_def)
  have e: "foundationTotal exState = 2" "winAlerts exState = 0"
    by (simp_all add: exState_def foundationTotal_def)
  obtain st' where m: "moveCards [2] Waste (Foundation Kh) exState = Some st'"
    using moveCards_returns [of Waste exState "Foundation Kh" "[2]"] by auto
  have t: "foundationTotal st' = 3"
    using m by (auto simp: moveCards_def removeFromSource_def addToDestination_def
                  foundationTotal_def checkWin_simps deselect_simps exState_def)
  note inst1 = win_signal_unguarded [of wonState "[]" Waste Waste]
  note inst2 = win_signal_unguarded [of exState "[2]" Waste "Foundation Kh"]
  have "winAlerts (checkWin wonState) = 2" using inst1 w by simp
  moreover have "winAlerts (checkWin exState) = 0" using inst2 e by simp
  moreover have "winAlerts st' = 0" using inst2 m t e by simp
  ultimately show ?thesis using w e m t by blast
qed

subsection \<open>The win signalled twice in one game\<close>

lemma deckArray_52: "deckArray = [0..<52]"
  by (simp add: deckArray_def length_createDeck)

lemma shuffle_winRnd: "shuffleDeck winRnd deckArray = rev deckArray"
  by code_simp

lemma rev_deckArray:
  "rev deckArray = [51, 50, 49, 48, 47, 46, 45, 44, 43, 42, 41, 40, 39, 38, 37, 36, 35, 34,
     33, 32, 31, 30, 29, 28, 27, 26, 25, 24, 23, 22, 21, 20, 19, 18, 17, 16, 15, 14, 13, 12,
     11, 10, 9, 8, 7, 6, 5, 4, 3, 2, 1, 0]"
  by code_simp

lemma initGame_winRnd: "initGame winRnd = Some winStart"
proof -
  have len: "length (rev deckArray) = 52" by (simp add: deckArray_simps)
  show ?thesis
    unfolding initGame_def shuffle_winRnd deal_eq [OF len] winStart_def startHeap_def
    by (simp add: rev_deckArray)
qed

lemma startHeap_lookup:
  assumes "a < 52"
  shows "startHeap a =
           (if 24 \<le> a then (deckHeap a)\<lparr>faceUp := (a \<in> {51, 49, 46, 42, 37, 31, 24})\<rparr>
            else deckHeap a)"
proof -
  have len: "length (rev deckArray) = 52" and dist: "distinct (rev deckArray)"
    by (simp_all add: deckArray_simps)
  have k: "51 - a < 52" by simp
  have d: "deal deckHeap (rev deckArray) = Some winStart"
    using initGame_winRnd by (simp add: initGame_def shuffle_winRnd)
  have nth: "rev deckArray ! (51 - a) = a"
    using assms by (simp add: rev_nth deckArray_simps deckArray_52)
  from deal_faceUp [OF len dist k d] have
    "startHeap a = (if 51 - a < 28 then (deckHeap a)\<lparr>faceUp := (51 - a \<in> {0, 2, 5, 9, 14, 20, 27})\<rparr>
            else deckHeap a)"
    by (simp add: nth winStart_def)
  moreover have "(51 - a < 28) = (24 \<le> a)" using assms by arith
  moreover have "(51 - a \<in> {0, 2, 5, 9, 14, 20, 27}) = (a \<in> {51, 49, 46, 42, 37, 31, 24})"
    using assms by auto
  ultimately show ?thesis by simp
qed

lemma getValueIndex_table:
  "getValueIndex VA = 0" "getValueIndex V2 = 1" "getValueIndex V3 = 2" "getValueIndex V4 = 3"
  "getValueIndex V5 = 4" "getValueIndex V6 = 5" "getValueIndex V7 = 6" "getValueIndex V8 = 7"
  "getValueIndex V9 = 8" "getValueIndex V10 = 9" "getValueIndex VJ = 10"
  "getValueIndex VQ = 11" "getValueIndex VK = 12"
  by (simp_all add: getValueIndex_def indexOf_def VALUES_def)

lemma setFaceUp_lookup:
  "setFaceUp a b hp (numeral n) =
     (if numeral n = a then (hp a)\<lparr>faceUp := b\<rparr> else hp (numeral n))"
  "setFaceUp a b hp 0 = (if 0 = a then (hp a)\<lparr>faceUp := b\<rparr> else hp 0)"
  "setFaceUp a b hp (Suc 0) = (if Suc 0 = a then (hp a)\<lparr>faceUp := b\<rparr> else hp (Suc 0))"
  by (simp_all add: setFaceUp_def)

lemmas play_simps =
  handleCardClick_def resolveClick_def selectOrMove_def autoMoveToFoundation_def
  canMoveToFoundation_def canMoveToTableau_def moveCards_def removeFromSource_def
  addToDestination_def attemptMove_def handleEmptySlotClick_def checkWin_def deselect_def
  selectCards_def drawFromStock_def Let_def js_splice_def setFaceUp_lookup startHeap_lookup
  deck_table createCard_def getSuitShort_def getValueIndex_table

lemma play_to_win: "runOps (take 76 winOps) winStart = Some wonState"
  by (simp add: winOps_def winStart_def wonState_def play_simps
           split del: if_split cong: let_weak_cong)

lemma play_on: "runOps (drop 76 winOps) wonState = Some (wonState\<lparr>winAlerts := 2\<rparr>)"
  by (simp add: winOps_def wonState_def play_simps
           split del: if_split cong: let_weak_cong)

lemma runOps_reachable: "reachable st \<Longrightarrow> runOps ops st = Some st' \<Longrightarrow> reachable st'"
proof (induction ops arbitrary: st)
  case Nil
  then show ?case by simp
next
  case (Cons x xs)
  then obtain st1 where 1: "uiStep x st = Some st1" and 2: "runOps xs st1 = Some st'"
    by (auto split: option.splits)
  have "reachable st1"
    using 1 Cons.prems(1)
    by (cases x) (auto intro: r_draw r_card r_slot)
  then show ?case using Cons.IH 2 by blast
qed

lemma winRnd_le: "\<forall>i. winRnd i \<le> i"
  by (auto simp: winRnd_def)

text \<open>
  C2 fails as stated. In one game, from the deal that \<open>initGame\<close> makes when the shuffle
  reverses the deck, 76 inputs put all 52 cards on the foundations and schedule the win
  alert; three more inputs, which take the king of spades off its foundation and put it
  back, end again with 52 cards on the foundations and schedule the alert a second time.
\<close>

theorem win_signalled_twice:
  "initGame winRnd = Some winStart \<and>
   runOps (take 76 winOps) winStart = Some wonState \<and>
   foundationTotal wonState = 52 \<and> winAlerts wonState = 1 \<and>
   runOps (drop 76 winOps) wonState = Some (wonState\<lparr>winAlerts := 2\<rparr>) \<and>
   reachable (wonState\<lparr>winAlerts := 2\<rparr>) \<and>
   foundationTotal (wonState\<lparr>winAlerts := 2\<rparr>) = 52 \<and>
   winAlerts (wonState\<lparr>winAlerts := 2\<rparr>) = 2"
proof -
  have r0: "reachable winStart"
    by (rule r_init [OF winRnd_le initGame_winRnd])
  have r1: "reachable wonState"
    by (rule runOps_reachable [OF r0 play_to_win])
  have r2: "reachable (wonState\<lparr>winAlerts := 2\<rparr>)"
    by (rule runOps_reachable [OF r1 play_on])
  have "foundationTotal wonState = 52" "winAlerts wonState = 1"
    by (simp_all add: wonState_def foundationTotal_def)
  with initGame_winRnd play_to_win play_on r2 show ?thesis
    by (simp add: foundationTotal_def)
qed

end
